theory Spec2Isabelle
  imports Main "HOL-Library.Word"
begin

section \<open>Memory, element types and events\<close>

text \<open>
  A slot of raw memory is \<open>None\<close> while it is uninitialised and \<open>Some x\<close> while it
  holds a live object of value \<open>x\<close>. A block of raw memory is the list of its slots.
  The counts a vector holds, \<open>size_\<close> and \<open>capacity_\<close>, are natural numbers. A count
  the caller supplies, to \<open>Reserve\<close>, \<open>Resize\<close> and \<open>Vector(size)\<close>, is a 64-bit
  \<open>size_t\<close>, and \<open>Allocate\<close> multiplies it by \<open>sizeof(T)\<close> in \<open>size_t\<close>, where the
  product wraps. The \<open>int offset\<close> of \<open>Emplace\<close> and \<open>Erase\<close> is 32 bits wide, less than
  a pointer difference, and is modelled with its truncation.
  A member \<^verbatim>\<open>name_\<close> of the source is written \<open>m_name\<close>.
\<close>

type_synonym 'a slots = "'a option list"

record 'a RawMemory =
  m_buffer :: "'a slots"
  m_capacity :: nat

record 'a Vector =
  m_data :: "'a RawMemory"
  m_size :: nat

text \<open>
  What the container needs to know of its element type \<open>T\<close>: whether copying a value
  throws, the value a moved-from object is left with, the two type traits that
  \<open>FillNewData\<close> and \<open>Emplace\<close> test, and \<open>sizeof(T)\<close>. Moves, assignments and
  destructors do not throw.
\<close>

record 'a elem_type =
  copy_throws :: "'a \<Rightarrow> bool"
  moved_from :: "'a \<Rightarrow> 'a"
  is_nothrow_move_constructible :: bool
  is_copy_constructible :: bool
  size_of :: nat

text \<open>
  The blocks a member function touches: the block \<open>m_data\<close> owns when the call starts,
  the block \<open>new_data\<close> it allocates, and the block of the other vector.
\<close>

datatype region = This | NewData | Rhs

datatype place = Tmp | Slot region nat

datatype event =
    Allocate nat
  | Deallocate region
  | Construct place
  | Value_construct place
  | Move_construct place place
  | Copy_construct place place
  | Move_assign place place
  | Copy_assign place place
  | Destroy place

text \<open>
  A step either completes, or leaves by an exception, or has undefined behaviour (a
  read of a raw slot, an access outside the block, a placement new over a live object,
  the destruction of a raw slot, \<open>operator delete\<close> of a pointer that is not the start
  of a block).
\<close>

datatype 'a result = Ok 'a | Exn 'a | UB

datatype ('s, 'r) outcome =
    Returns "event list" 's 'r
  | Throws "event list" 's
  | Undefined

definition read :: "'a slots \<Rightarrow> nat \<Rightarrow> 'a option" where
  "read b i = (if i < length b then b ! i else None)"

definition construct_at :: "'a slots \<Rightarrow> nat \<Rightarrow> 'a \<Rightarrow> 'a slots option" where
  "construct_at b i x = (if i < length b \<and> b ! i = None then Some (b[i := Some x]) else None)"

definition assign_at :: "'a slots \<Rightarrow> nat \<Rightarrow> 'a \<Rightarrow> 'a slots option" where
  "assign_at b i x = (if i < length b \<and> b ! i \<noteq> None then Some (b[i := Some x]) else None)"

definition destroy_at :: "'a slots \<Rightarrow> nat \<Rightarrow> 'a slots option" where
  "destroy_at b i = (if i < length b \<and> b ! i \<noteq> None then Some (b[i := None]) else None)"

definition copy_construct :: "'a elem_type \<Rightarrow> 'a \<Rightarrow> 'a option" where
  "copy_construct T x = (if copy_throws T x then None else Some x)"

section \<open>The standard algorithms the container calls\<close>

text \<open>
  \<open>std::uninitialized_move_n(src + s, n, dst + d)\<close>: move-constructs \<open>n\<close> objects into
  raw slots, front to back. The result is the source block, the destination block and
  the events, or \<open>None\<close> for undefined behaviour.
\<close>

fun uninitialized_move_n ::
  "'a elem_type \<Rightarrow> region \<Rightarrow> 'a slots \<Rightarrow> nat \<Rightarrow> nat \<Rightarrow> region \<Rightarrow> 'a slots \<Rightarrow> nat
     \<Rightarrow> ('a slots \<times> 'a slots \<times> event list) option" where
  "uninitialized_move_n T rs src s 0 rd dst d = Some (src, dst, [])"
| "uninitialized_move_n T rs src s (Suc n) rd dst d =
     (case read src s of
        None \<Rightarrow> None
      | Some x \<Rightarrow>
          (case construct_at dst d x of
             None \<Rightarrow> None
           | Some dst' \<Rightarrow>
               (case uninitialized_move_n T rs (src[s := Some (moved_from T x)]) (Suc s) n
                       rd dst' (Suc d) of
                  None \<Rightarrow> None
                | Some (src'', dst'', es) \<Rightarrow>
                    Some (src'', dst'', Move_construct (Slot rs s) (Slot rd d) # es))))"

text \<open>
  \<open>std::uninitialized_copy_n(src + s, n, dst + d)\<close>: copy-constructs \<open>n\<close> objects into
  raw slots. When a copy throws, the objects constructed so far are destroyed and the
  exception goes on; the source is never changed.
\<close>

fun uninitialized_copy_n ::
  "'a elem_type \<Rightarrow> region \<Rightarrow> 'a slots \<Rightarrow> nat \<Rightarrow> nat \<Rightarrow> region \<Rightarrow> 'a slots \<Rightarrow> nat
     \<Rightarrow> ('a slots \<times> event list) result" where
  "uninitialized_copy_n T rs src s 0 rd dst d = Ok (dst, [])"
| "uninitialized_copy_n T rs src s (Suc n) rd dst d =
     (case read src s of
        None \<Rightarrow> UB
      | Some x \<Rightarrow>
          (case copy_construct T x of
             None \<Rightarrow> Exn (dst, [])
           | Some y \<Rightarrow>
               (case construct_at dst d y of
                  None \<Rightarrow> UB
                | Some dst' \<Rightarrow>
                    (case uninitialized_copy_n T rs src (Suc s) n rd dst' (Suc d) of
                       UB \<Rightarrow> UB
                     | Ok (dst'', es) \<Rightarrow>
                         Ok (dst'', Copy_construct (Slot rs s) (Slot rd d) # es)
                     | Exn (dst'', es) \<Rightarrow>
                         Exn (dst''[d := None],
                              Copy_construct (Slot rs s) (Slot rd d) # es @ [Destroy (Slot rd d)])))))"

text \<open>\<open>std::destroy_n(b + first, n)\<close>: destroys \<open>n\<close> live objects.\<close>

fun destroy_n :: "region \<Rightarrow> 'a slots \<Rightarrow> nat \<Rightarrow> nat \<Rightarrow> ('a slots \<times> event list) option" where
  "destroy_n r b first 0 = Some (b, [])"
| "destroy_n r b first (Suc n) =
     (case destroy_at b first of
        None \<Rightarrow> None
      | Some b' \<Rightarrow>
          (case destroy_n r b' (Suc first) n of
             None \<Rightarrow> None
           | Some (b'', es) \<Rightarrow> Some (b'', Destroy (Slot r first) # es)))"

section \<open>RawMemory and Vector\<close>

text \<open>
  \<open>Allocate(n)\<close> for a count \<open>n\<close> the caller supplies (\<open>Allocate_slots\<close>, the event
  being \<open>Allocate\<close>): \<^verbatim>\<open>operator new(n * sizeof(T))\<close>, the product taken in
  \<open>size_t\<close>. The slots of the block are the objects that fit into the bytes obtained: \<open>n\<close> of them when the product does not wrap, fewer when it does.
  \<open>RawMemory_sized\<close> is the constructor \<open>RawMemory(capacity)\<close> on such a count;
  \<open>capacity_\<close> is the count whatever the block is.
\<close>

definition Allocate_slots :: "'a elem_type \<Rightarrow> 64 word \<Rightarrow> 'a slots" where
  "Allocate_slots T n = replicate (((unat n * size_of T) mod 2 ^ 64) div size_of T) None"

definition RawMemory_sized :: "'a elem_type \<Rightarrow> 64 word \<Rightarrow> 'a RawMemory" where
  "RawMemory_sized T capacity = \<lparr>m_buffer = Allocate_slots T capacity, m_capacity = unat capacity\<rparr>"

text \<open>
  \<open>RawMemory(capacity)\<close> for a count taken from a vector that exists: its \<open>size_\<close> in
  the copy constructor, \<^verbatim>\<open>size_ == 0 ? 1 : size_ * 2\<close> in \<open>EmplaceBack\<close> and \<open>Emplace\<close>,
  and 0 in the default constructor. The bytes of a block next to the one the vector
  holds are taken to fit \<open>size_t\<close>, so the block has \<open>capacity\<close> slots.
\<close>

definition RawMemory_new :: "nat \<Rightarrow> 'a RawMemory" where
  "RawMemory_new capacity = \<lparr>m_buffer = replicate capacity None, m_capacity = capacity\<rparr>"

definition Vector_default :: "'a Vector" where
  "Vector_default = \<lparr>m_data = RawMemory_new 0, m_size = 0\<rparr>"

definition Size :: "'a Vector \<Rightarrow> nat" where
  "Size v = m_size v"

definition Capacity :: "'a Vector \<Rightarrow> nat" where
  "Capacity v = m_capacity (m_data v)"

text \<open>
  The capacity a growing insertion asks for: \<^verbatim>\<open>size_ == 0 ? 1 : size_ * 2\<close>, written
  out in \<open>EmplaceBack\<close> and in \<open>Emplace\<close>.
\<close>

definition grown :: "nat \<Rightarrow> nat" where
  "grown n = (if n = 0 then 1 else n * 2)"

text \<open>\<open>FillNewData\<close>: moves or copies the live elements to the front of \<open>new_data\<close>.\<close>

definition FillNewData ::
  "'a elem_type \<Rightarrow> 'a Vector \<Rightarrow> 'a RawMemory \<Rightarrow> ('a Vector \<times> 'a RawMemory \<times> event list) result" where
  "FillNewData T v new_data =
     (if is_nothrow_move_constructible T \<or> \<not> is_copy_constructible T then
        (case uninitialized_move_n T This (m_buffer (m_data v)) 0 (m_size v)
                NewData (m_buffer new_data) 0 of
           None \<Rightarrow> UB
         | Some (b, nb, es) \<Rightarrow>
             Ok (v\<lparr>m_data := (m_data v)\<lparr>m_buffer := b\<rparr>\<rparr>, new_data\<lparr>m_buffer := nb\<rparr>, es))
      else
        (case uninitialized_copy_n T This (m_buffer (m_data v)) 0 (m_size v)
                NewData (m_buffer new_data) 0 of
           UB \<Rightarrow> UB
         | Ok (nb, es) \<Rightarrow> Ok (v, new_data\<lparr>m_buffer := nb\<rparr>, es)
         | Exn (nb, es) \<Rightarrow> Exn (v, new_data\<lparr>m_buffer := nb\<rparr>, es)))"

text \<open>
  \<open>EmplaceBack(args...)\<close>. \<open>ctor args\<close> is the outcome of \<open>T(args...)\<close>: \<open>None\<close> when the
  constructor throws. The reference returned, \<open>m_data[m_size++]\<close>, is the index of its
  slot. In the growing branch the old block is released by the destructor of
  \<open>new_data\<close> after the swap; when \<open>FillNewData\<close> throws, \<open>new_data\<close> is released with
  the new element still in it.
\<close>

definition EmplaceBack ::
  "'a elem_type \<Rightarrow> ('args \<Rightarrow> 'a option) \<Rightarrow> 'a Vector \<Rightarrow> 'args \<Rightarrow> ('a Vector, nat) outcome" where
  "EmplaceBack T ctor v args =
     (if m_size v < m_capacity (m_data v) then
        (case ctor args of
           None \<Rightarrow> Throws [] v
         | Some x \<Rightarrow>
             (case construct_at (m_buffer (m_data v)) (m_size v) x of
                None \<Rightarrow> Undefined
              | Some b \<Rightarrow>
                  Returns [Construct (Slot This (m_size v))]
                    (v\<lparr>m_data := (m_data v)\<lparr>m_buffer := b\<rparr>, m_size := m_size v + 1\<rparr>) (m_size v)))
      else
        (let n = grown (m_size v);
             new_data = RawMemory_new n
         in case ctor args of
              None \<Rightarrow> Throws [Allocate n, Deallocate NewData] v
            | Some x \<Rightarrow>
                (case construct_at (m_buffer new_data) (m_size v) x of
                   None \<Rightarrow> Undefined
                 | Some nb \<Rightarrow>
                     (case FillNewData T v (new_data\<lparr>m_buffer := nb\<rparr>) of
                        UB \<Rightarrow> Undefined
                      | Exn (v', new_data', es) \<Rightarrow>
                          Throws ([Allocate n, Construct (Slot NewData (m_size v))] @ es
                                  @ [Deallocate NewData]) v'
                      | Ok (v', new_data', es) \<Rightarrow>
                          (case destroy_n This (m_buffer (m_data v')) 0 (m_size v') of
                             None \<Rightarrow> Undefined
                           | Some (b, ds) \<Rightarrow>
                               if m_size v' < m_capacity new_data' then
                                 Returns ([Allocate n, Construct (Slot NewData (m_size v))] @ es
                                          @ ds @ [Deallocate This])
                                   (v'\<lparr>m_data := new_data', m_size := m_size v' + 1\<rparr>) (m_size v')
                               else Undefined)))))"

datatype 'a fwd = Lvalue 'a | Rvalue 'a

text \<open>
  \<open>T(std::forward<Type>(value))\<close>: the copy constructor for an lvalue, the move
  constructor for an rvalue.
\<close>

fun forward_construct :: "'a elem_type \<Rightarrow> 'a fwd \<Rightarrow> 'a option" where
  "forward_construct T (Lvalue x) = copy_construct T x"
| "forward_construct T (Rvalue x) = Some x"

definition PushBack :: "'a elem_type \<Rightarrow> 'a Vector \<Rightarrow> 'a fwd \<Rightarrow> ('a Vector, unit) outcome" where
  "PushBack T v val =
     (case EmplaceBack T (forward_construct T) v val of
        Returns es v' r \<Rightarrow> Returns es v' ()
      | Throws es v' \<Rightarrow> Throws es v'
      | Undefined \<Rightarrow> Undefined)"

definition PopBack :: "'a Vector \<Rightarrow> ('a Vector, unit) outcome" where
  "PopBack v =
     (if m_size v > 0 then
        (case destroy_at (m_buffer (m_data v)) (m_size v - 1) of
           None \<Rightarrow> Undefined
         | Some b \<Rightarrow>
             Returns [Destroy (Slot This (m_size v - 1))]
               (v\<lparr>m_data := (m_data v)\<lparr>m_buffer := b\<rparr>, m_size := m_size v - 1\<rparr>) ())
      else Returns [] v ())"

text \<open>
  The class invariant: the block has \<open>m_capacity\<close> slots, the first \<open>m_size\<close> of them are
  live and the others are raw. \<open>elems\<close> are the values of the live elements.
\<close>

definition wf :: "'a Vector \<Rightarrow> bool" where
  "wf v \<longleftrightarrow>
     length (m_buffer (m_data v)) = m_capacity (m_data v) \<and> m_size v \<le> m_capacity (m_data v) \<and>
     (\<forall>i < m_capacity (m_data v). (m_buffer (m_data v) ! i \<noteq> None) = (i < m_size v))"

definition elems :: "'a Vector \<Rightarrow> 'a list" where
  "elems v = map the (take (m_size v) (m_buffer (m_data v)))"

definition mk_vector :: "'a list \<Rightarrow> nat \<Rightarrow> 'a Vector" where
  "mk_vector xs k =
     \<lparr>m_data = \<lparr>m_buffer = map Some xs @ replicate k None, m_capacity = length xs + k\<rparr>,
      m_size = length xs\<rparr>"

text \<open>The events of \<open>FillNewData\<close> on \<open>n\<close> elements when no copy throws.\<close>

definition transfer_events :: "'a elem_type \<Rightarrow> nat \<Rightarrow> event list" where
  "transfer_events T n =
     map (\<lambda>i. if is_nothrow_move_constructible T \<or> \<not> is_copy_constructible T
               then Move_construct (Slot This i) (Slot NewData i)
               else Copy_construct (Slot This i) (Slot NewData i)) [0..<n]"

text \<open>
  Two element types for concrete runs: one like \<open>int\<close>, of 4 bytes, whose copies and
  moves do nothing but copy the value, and one of 8 bytes whose move constructor is
  not \<open>noexcept\<close>, whose copy constructor throws on the value \<open>13\<close> and whose
  moved-from objects hold \<open>0\<close>.
\<close>

definition trivial_type :: "'a elem_type" where
  "trivial_type =
     \<lparr>copy_throws = (\<lambda>x. False), moved_from = (\<lambda>x. x),
      is_nothrow_move_constructible = True, is_copy_constructible = True, size_of = 4\<rparr>"

definition fragile_type :: "nat elem_type" where
  "fragile_type =
     \<lparr>copy_throws = (\<lambda>x. x = 13), moved_from = (\<lambda>x. 0),
      is_nothrow_move_constructible = False, is_copy_constructible = True, size_of = 8\<rparr>"

text \<open>
  A sequence of \<open>PushBack\<close> and \<open>PopBack\<close> calls on one vector, run until a call
  throws or has undefined behaviour.
\<close>

datatype 'a vec_op = Push "'a fwd" | Pop

fun run :: "'a elem_type \<Rightarrow> 'a Vector \<Rightarrow> 'a vec_op list \<Rightarrow> 'a Vector result" where
  "run T v [] = Ok v"
| "run T v (Push val # ops) =
     (case PushBack T v val of
        Returns es v' u \<Rightarrow> run T v' ops
      | Throws es v' \<Rightarrow> Exn v'
      | Undefined \<Rightarrow> UB)"
| "run T v (Pop # ops) =
     (case PopBack v of
        Returns es v' u \<Rightarrow> run T v' ops
      | Throws es v' \<Rightarrow> Exn v'
      | Undefined \<Rightarrow> UB)"

text \<open>
  The words of the specification about such a sequence: the number of pushes, the
  number of pops, the pushed values in push order, the values a stack would hold
  (a pop of the empty stack does nothing), and whether no pop meets an empty stack
  of depth \<open>n\<close> at the start.
\<close>

fun value_of :: "'a fwd \<Rightarrow> 'a" where
  "value_of (Lvalue x) = x"
| "value_of (Rvalue x) = x"

fun pushes :: "'a vec_op list \<Rightarrow> nat" where
  "pushes [] = 0"
| "pushes (Push val # ops) = Suc (pushes ops)"
| "pushes (Pop # ops) = pushes ops"

fun pops :: "'a vec_op list \<Rightarrow> nat" where
  "pops [] = 0"
| "pops (Push val # ops) = pops ops"
| "pops (Pop # ops) = Suc (pops ops)"

fun pushed_values :: "'a vec_op list \<Rightarrow> 'a list" where
  "pushed_values [] = []"
| "pushed_values (Push val # ops) = value_of val # pushed_values ops"
| "pushed_values (Pop # ops) = pushed_values ops"

fun stack_after :: "'a list \<Rightarrow> 'a vec_op list \<Rightarrow> 'a list" where
  "stack_after xs [] = xs"
| "stack_after xs (Push val # ops) = stack_after (xs @ [value_of val]) ops"
| "stack_after xs (Pop # ops) = stack_after (butlast xs) ops"

fun never_underflows :: "nat \<Rightarrow> 'a vec_op list \<Rightarrow> bool" where
  "never_underflows n [] = True"
| "never_underflows n (Push val # ops) = never_underflows (Suc n) ops"
| "never_underflows n (Pop # ops) = (0 < n \<and> never_underflows (n - 1) ops)"

section \<open>Emplace, Insert and Erase\<close>

text \<open>
  An iterator is the index of its slot, counted from \<open>begin()\<close>.
  \<^verbatim>\<open>int offset = pos - begin()\<close> narrows the pointer difference to 32 bits.
\<close>

definition int_offset :: "nat \<Rightarrow> int" where
  "int_offset pos = sint (word_of_nat pos :: 32 word)"

text \<open>
  \<open>std::move_backward(b + first, b + first + n, b + d_last)\<close>: move-assigns \<open>n\<close> objects,
  the last one first, to the slots that end before \<open>d_last\<close>.
\<close>

fun move_backward ::
  "'a elem_type \<Rightarrow> region \<Rightarrow> 'a slots \<Rightarrow> nat \<Rightarrow> nat \<Rightarrow> nat \<Rightarrow> ('a slots \<times> event list) option" where
  "move_backward T r b first 0 d_last = Some (b, [])"
| "move_backward T r b first (Suc n) d_last =
     (if d_last = 0 then None
      else
        (case read b (first + n) of
           None \<Rightarrow> None
         | Some x \<Rightarrow>
             (case assign_at b (d_last - 1) x of
                None \<Rightarrow> None
              | Some b' \<Rightarrow>
                  (case move_backward T r (b'[first + n := Some (moved_from T x)]) first n
                          (d_last - 1) of
                     None \<Rightarrow> None
                   | Some (b'', es) \<Rightarrow>
                       Some (b'', Move_assign (Slot r (first + n)) (Slot r (d_last - 1)) # es)))))"

text \<open>
  \<open>std::move(b + first, b + first + n, b + d)\<close>: move-assigns \<open>n\<close> objects, the first
  one first, to the slots from \<open>d\<close> on.
\<close>

fun std_move ::
  "'a elem_type \<Rightarrow> region \<Rightarrow> 'a slots \<Rightarrow> nat \<Rightarrow> nat \<Rightarrow> nat \<Rightarrow> ('a slots \<times> event list) option" where
  "std_move T r b first 0 d = Some (b, [])"
| "std_move T r b first (Suc n) d =
     (case read b first of
        None \<Rightarrow> None
      | Some x \<Rightarrow>
          (case assign_at b d x of
             None \<Rightarrow> None
           | Some b' \<Rightarrow>
               (case std_move T r (b'[first := Some (moved_from T x)]) (Suc first) n (Suc d) of
                  None \<Rightarrow> None
                | Some (b'', es) \<Rightarrow> Some (b'', Move_assign (Slot r first) (Slot r d) # es))))"

text \<open>
  The \<^verbatim>\<open>if constexpr\<close> of \<open>Emplace\<close>, which it writes out twice: \<open>uninitialized_move_n\<close>
  when the move constructor is \<open>noexcept\<close> or there is no copy constructor,
  \<open>uninitialized_copy_n\<close> otherwise. The result is the source block, the destination
  block and the events.
\<close>

definition transfer_n ::
  "'a elem_type \<Rightarrow> 'a slots \<Rightarrow> nat \<Rightarrow> nat \<Rightarrow> 'a slots \<Rightarrow> nat
     \<Rightarrow> ('a slots \<times> 'a slots \<times> event list) result" where
  "transfer_n T src s n dst d =
     (if is_nothrow_move_constructible T \<or> \<not> is_copy_constructible T then
        (case uninitialized_move_n T This src s n NewData dst d of
           None \<Rightarrow> UB
         | Some r \<Rightarrow> Ok r)
      else
        (case uninitialized_copy_n T This src s n NewData dst d of
           UB \<Rightarrow> UB
         | Ok (dst', es) \<Rightarrow> Ok (src, dst', es)
         | Exn (dst', es) \<Rightarrow> Exn (src, dst', es)))"

text \<open>
  The handler of \<open>Emplace\<close>, \<^verbatim>\<open>catch (...) { operator delete (end()); throw; }\<close>, entered
  after the events \<open>es\<close>. With \<open>size_ > 0\<close>, \<open>end()\<close> points into the block and was not
  returned by \<open>operator new\<close>: the call is undefined. With \<open>size_ = 0\<close>, \<open>end()\<close> is the
  start of the block, which is released while \<open>data_\<close> still owns it; the exception
  then leaves a vector of which every later use of the block, the destructor's
  \<open>Deallocate\<close> among them, is a use after free or a second release. There is no state
  of the model for such a vector, and the outcome is \<open>Undefined\<close> there too.
\<close>

definition Emplace_handler :: "event list \<Rightarrow> 'a Vector \<Rightarrow> ('a Vector, nat) outcome" where
  "Emplace_handler es v = Undefined"

text \<open>
  \<open>Emplace(pos, args...)\<close>. A pointer \<open>begin() + offset\<close> with a negative \<open>offset\<close> lies
  before the block. \<open>data_[size_ - 1]\<close> with \<open>size_ = 0\<close> and a count \<open>Size() - offset\<close>
  with \<open>offset > Size()\<close> wrap around and leave the block.
\<close>

definition Emplace ::
  "'a elem_type \<Rightarrow> ('args \<Rightarrow> 'a option) \<Rightarrow> 'a Vector \<Rightarrow> nat \<Rightarrow> 'args \<Rightarrow> ('a Vector, nat) outcome" where
  "Emplace T ctor v pos args =
     (let offset = int_offset pos in
      if m_size v < m_capacity (m_data v) then
        (if pos \<noteq> m_size v then
           (case ctor args of
              None \<Rightarrow> Emplace_handler [] v
            | Some tmp_obj \<Rightarrow>
                if m_size v = 0 then Undefined
                else
                  (case read (m_buffer (m_data v)) (m_size v - 1) of
                     None \<Rightarrow> Undefined
                   | Some x \<Rightarrow>
                       (case construct_at (m_buffer (m_data v)) (m_size v) x of
                          None \<Rightarrow> Undefined
                        | Some b1 \<Rightarrow>
                            if offset < 0 \<or> int (m_size v - 1) < offset then Undefined
                            else
                              (case move_backward T This
                                      (b1[m_size v - 1 := Some (moved_from T x)])
                                      (nat offset) (m_size v - 1 - nat offset) (m_size v) of
                                 None \<Rightarrow> Undefined
                               | Some (b2, es) \<Rightarrow>
                                   (case assign_at b2 (nat offset) tmp_obj of
                                      None \<Rightarrow> Undefined
                                    | Some b3 \<Rightarrow>
                                        Returns
                                          ([Construct Tmp,
                                            Move_construct (Slot This (m_size v - 1))
                                              (Slot This (m_size v))]
                                           @ es @ [Move_assign Tmp (Slot This (nat offset)),
                                                   Destroy Tmp])
                                          (v\<lparr>m_data := (m_data v)\<lparr>m_buffer := b3\<rparr>,
                                             m_size := m_size v + 1\<rparr>)
                                          (nat offset))))))
         else
           (case ctor args of
              None \<Rightarrow> Emplace_handler [] v
            | Some x \<Rightarrow>
                (case construct_at (m_buffer (m_data v)) (m_size v) x of
                   None \<Rightarrow> Undefined
                 | Some b \<Rightarrow>
                     if offset < 0 \<or> int (m_capacity (m_data v)) < offset then Undefined
                     else
                       Returns [Construct (Slot This (m_size v))]
                         (v\<lparr>m_data := (m_data v)\<lparr>m_buffer := b\<rparr>, m_size := m_size v + 1\<rparr>)
                         (nat offset))))
      else
        (let n = grown (m_size v);
             new_data = RawMemory_new n
         in if offset < 0 then Undefined
            else
              (case ctor args of
                 None \<Rightarrow> Throws [Allocate n, Deallocate NewData] v
               | Some x \<Rightarrow>
                   (case construct_at (m_buffer new_data) (nat offset) x of
                      None \<Rightarrow> Undefined
                    | Some nb \<Rightarrow>
                        (case transfer_n T (m_buffer (m_data v)) 0 (nat offset) nb 0 of
                           UB \<Rightarrow> Undefined
                         | Exn (b1, nb1, es1) \<Rightarrow>
                             Throws ([Allocate n, Construct (Slot NewData (nat offset))] @ es1
                                     @ [Deallocate NewData])
                               (v\<lparr>m_data := (m_data v)\<lparr>m_buffer := b1\<rparr>\<rparr>)
                         | Ok (b1, nb1, es1) \<Rightarrow>
                             if m_size v < nat offset then Undefined
                             else
                               (case transfer_n T b1 (nat offset) (m_size v - nat offset)
                                       nb1 (nat offset + 1) of
                                  UB \<Rightarrow> Undefined
                                | Exn (b2, nb2, es2) \<Rightarrow>
                                    Throws ([Allocate n, Construct (Slot NewData (nat offset))]
                                            @ es1 @ es2 @ [Deallocate NewData])
                                      (v\<lparr>m_data := (m_data v)\<lparr>m_buffer := b2\<rparr>\<rparr>)
                                | Ok (b2, nb2, es2) \<Rightarrow>
                                    (case destroy_n This b2 0 (m_size v) of
                                       None \<Rightarrow> Undefined
                                     | Some (b3, ds) \<Rightarrow>
                                         if int n < offset then Undefined
                                         else
                                           Returns
                                             ([Allocate n, Construct (Slot NewData (nat offset))]
                                              @ es1 @ es2 @ ds @ [Deallocate This])
                                             (v\<lparr>m_data := new_data\<lparr>m_buffer := nb2\<rparr>,
                                                m_size := m_size v + 1\<rparr>)
                                             (nat offset))))))))"

text \<open>
  \<open>Insert(pos, value)\<close>, for both overloads: \<open>Emplace\<close> with the copy constructor for
  \<^verbatim>\<open>const T&\<close> and the move constructor for \<^verbatim>\<open>T&&\<close>.
\<close>

definition Insert ::
  "'a elem_type \<Rightarrow> 'a Vector \<Rightarrow> nat \<Rightarrow> 'a fwd \<Rightarrow> ('a Vector, nat) outcome" where
  "Insert T v pos val = Emplace T (forward_construct T) v pos val"

text \<open>
  \<open>Erase(pos)\<close>. The range \<open>[begin() + offset + 1, end())\<close> must not be reversed, and
  \<open>end() - 1\<close> must be a live object.
\<close>

definition Erase :: "'a elem_type \<Rightarrow> 'a Vector \<Rightarrow> nat \<Rightarrow> ('a Vector, nat) outcome" where
  "Erase T v pos =
     (let offset = int_offset pos in
      if offset < 0 \<or> int (m_size v) < offset + 1 then Undefined
      else
        (case std_move T This (m_buffer (m_data v)) (nat offset + 1)
                (m_size v - (nat offset + 1)) (nat offset) of
           None \<Rightarrow> Undefined
         | Some (b1, es) \<Rightarrow>
             (case destroy_at b1 (m_size v - 1) of
                None \<Rightarrow> Undefined
              | Some b2 \<Rightarrow>
                  Returns (es @ [Destroy (Slot This (m_size v - 1))])
                    (v\<lparr>m_data := (m_data v)\<lparr>m_buffer := b2\<rparr>, m_size := m_size v - 1\<rparr>)
                    (nat offset))))"

text \<open>
  The events of \<open>std::move_backward\<close> on the \<open>n\<close> slots from \<open>first\<close> on, shifted one
  slot to the right, and of \<open>transfer_n\<close> on \<open>n\<close> elements when no copy throws.
\<close>

definition shift_events :: "nat \<Rightarrow> nat \<Rightarrow> event list" where
  "shift_events first n =
     map (\<lambda>i. Move_assign (Slot This (first + i)) (Slot This (Suc (first + i)))) (rev [0..<n])"

definition transfer_events_at :: "'a elem_type \<Rightarrow> nat \<Rightarrow> nat \<Rightarrow> nat \<Rightarrow> event list" where
  "transfer_events_at T s n d =
     map (\<lambda>i. if is_nothrow_move_constructible T \<or> \<not> is_copy_constructible T
               then Move_construct (Slot This (s + i)) (Slot NewData (d + i))
               else Copy_construct (Slot This (s + i)) (Slot NewData (d + i))) [0..<n]"

text \<open>The values the source objects of a transfer are left with.\<close>

definition left_behind :: "'a elem_type \<Rightarrow> 'a list \<Rightarrow> 'a list" where
  "left_behind T xs =
     (if is_nothrow_move_constructible T \<or> \<not> is_copy_constructible T
      then map (moved_from T) xs else xs)"

section \<open>Reserve, Resize, construction and assignment\<close>

text \<open>
  \<open>Reserve(new_capacity)\<close>. When the product of \<open>Allocate\<close> wrapped, the new block is
  too small for the elements that \<open>FillNewData\<close> constructs in it.
\<close>

definition Reserve :: "'a elem_type \<Rightarrow> 'a Vector \<Rightarrow> 64 word \<Rightarrow> ('a Vector, unit) outcome" where
  "Reserve T v new_capacity =
     (if unat new_capacity \<le> m_capacity (m_data v) then Returns [] v ()
      else
        (let new_data = RawMemory_sized T new_capacity
         in case FillNewData T v new_data of
              UB \<Rightarrow> Undefined
            | Exn (v', new_data', es) \<Rightarrow>
                Throws ([Allocate (unat new_capacity)] @ es @ [Deallocate NewData]) v'
            | Ok (v', new_data', es) \<Rightarrow>
                (case destroy_n This (m_buffer (m_data v')) 0 (m_size v') of
                   None \<Rightarrow> Undefined
                 | Some (b, ds) \<Rightarrow>
                     Returns ([Allocate (unat new_capacity)] @ es @ ds @ [Deallocate This])
                       (v'\<lparr>m_data := new_data'\<rparr>) ())))"




definition Vector_copy :: "'a elem_type \<Rightarrow> 'a Vector \<Rightarrow> (unit, 'a Vector) outcome" where
  "Vector_copy T other =
     (case uninitialized_copy_n T Rhs (m_buffer (m_data other)) 0 (m_size other)
             NewData (m_buffer (RawMemory_new (m_size other))) 0 of
        UB \<Rightarrow> Undefined
      | Exn (b, es) \<Rightarrow> Throws ([Allocate (m_size other)] @ es @ [Deallocate NewData]) ()
      | Ok (b, es) \<Rightarrow>
          Returns ([Allocate (m_size other)] @ es)
            () \<lparr>m_data = (RawMemory_new (m_size other))\<lparr>m_buffer := b\<rparr>, m_size = m_size other\<rparr>)"

text \<open>
  \<open>std::copy(src, src + n, dst)\<close>: copy-assigns \<open>n\<close> objects. A copy assignment throws
  for the values whose copy construction throws; what was assigned before stays.
\<close>

fun std_copy ::
  "'a elem_type \<Rightarrow> 'a slots \<Rightarrow> nat \<Rightarrow> nat \<Rightarrow> 'a slots \<Rightarrow> nat \<Rightarrow> ('a slots \<times> event list) result" where
  "std_copy T src s 0 dst d = Ok (dst, [])"
| "std_copy T src s (Suc n) dst d =
     (case read src s of
        None \<Rightarrow> UB
      | Some x \<Rightarrow>
          (case copy_construct T x of
             None \<Rightarrow> Exn (dst, [])
           | Some y \<Rightarrow>
               (case assign_at dst d y of
                  None \<Rightarrow> UB
                | Some dst' \<Rightarrow>
                    (case std_copy T src (Suc s) n dst' (Suc d) of
                       UB \<Rightarrow> UB
                     | Ok (dst'', es) \<Rightarrow> Ok (dst'', Copy_assign (Slot Rhs s) (Slot This d) # es)
                     | Exn (dst'', es) \<Rightarrow>
                         Exn (dst'', Copy_assign (Slot Rhs s) (Slot This d) # es)))))"

text \<open>
  Two vectors may be the same object, so the operations on two vectors work on a
  store of vectors and take the addresses of \<open>this\<close> and of the other vector.
\<close>

type_synonym 'a store = "nat \<Rightarrow> 'a Vector"

definition Swap :: "'a store \<Rightarrow> nat \<Rightarrow> nat \<Rightarrow> ('a store, unit) outcome" where
  "Swap st this other =
     Returns []
       (st(this := (st this)\<lparr>m_data := m_data (st other), m_size := m_size (st other)\<rparr>,
           other := (st other)\<lparr>m_data := m_data (st this), m_size := m_size (st this)\<rparr>)) ()"

text \<open>
  The move constructor: the members of the new object at \<open>this\<close> get their default
  initialisers, then \<open>Swap(other)\<close>.
\<close>

definition Vector_move :: "'a store \<Rightarrow> nat \<Rightarrow> nat \<Rightarrow> ('a store, unit) outcome" where
  "Vector_move st this other = Swap (st(this := Vector_default)) this other"

definition move_assign :: "'a store \<Rightarrow> nat \<Rightarrow> nat \<Rightarrow> ('a store, unit) outcome" where
  "move_assign st this rhs = (if this \<noteq> rhs then Swap st this rhs else Returns [] st ())"

text \<open>
  The copy assignment. In its first branch the copy \<open>buff\<close> is swapped with \<open>*this\<close> and
  its destructor destroys the old elements and releases the old block.
\<close>

definition copy_assign :: "'a elem_type \<Rightarrow> 'a store \<Rightarrow> nat \<Rightarrow> nat \<Rightarrow> ('a store, unit) outcome" where
  "copy_assign T st this rhs =
     (if this \<noteq> rhs then
        (let v = st this; r = st rhs in
         if m_size r > m_capacity (m_data v) then
           (case Vector_copy T r of
              Undefined \<Rightarrow> Undefined
            | Throws es u \<Rightarrow> Throws es st
            | Returns es u buff \<Rightarrow>
                (case destroy_n This (m_buffer (m_data v)) 0 (m_size v) of
                   None \<Rightarrow> Undefined
                 | Some (b, ds) \<Rightarrow> Returns (es @ ds @ [Deallocate This]) (st(this := buff)) ()))
         else if m_size r < m_size v then
           (case std_copy T (m_buffer (m_data r)) 0 (m_size r) (m_buffer (m_data v)) 0 of
              UB \<Rightarrow> Undefined
            | Exn (b, es) \<Rightarrow> Throws es (st(this := v\<lparr>m_data := (m_data v)\<lparr>m_buffer := b\<rparr>\<rparr>))
            | Ok (b, es) \<Rightarrow>
                (case destroy_n This b (m_size r) (m_size v - m_size r) of
                   None \<Rightarrow> Undefined
                 | Some (b', ds) \<Rightarrow>
                     Returns (es @ ds)
                       (st(this := v\<lparr>m_data := (m_data v)\<lparr>m_buffer := b'\<rparr>, m_size := m_size r\<rparr>))
                       ()))
         else
           (case std_copy T (m_buffer (m_data r)) 0 (m_size v) (m_buffer (m_data v)) 0 of
              UB \<Rightarrow> Undefined
            | Exn (b, es) \<Rightarrow> Throws es (st(this := v\<lparr>m_data := (m_data v)\<lparr>m_buffer := b\<rparr>\<rparr>))
            | Ok (b, es) \<Rightarrow>
                (case uninitialized_copy_n T Rhs (m_buffer (m_data r)) (m_size v)
                        (m_size r - m_size v) This b (m_size v) of
                   UB \<Rightarrow> Undefined
                 | Exn (b', cs) \<Rightarrow>
                     Throws (es @ cs) (st(this := v\<lparr>m_data := (m_data v)\<lparr>m_buffer := b'\<rparr>\<rparr>))
                 | Ok (b', cs) \<Rightarrow>
                     Returns (es @ cs)
                       (st(this := v\<lparr>m_data := (m_data v)\<lparr>m_buffer := b'\<rparr>, m_size := m_size r\<rparr>))
                       ())))
      else Returns [] st ())"

text \<open>
  A store for concrete runs: the vector \<open>[1, 2]\<close> at address 0, the vector \<open>[3]\<close> with
  one spare slot at address 1, and empty vectors elsewhere.
\<close>

definition example_store :: "nat store" where
  "example_store = (\<lambda>a. Vector_default)(0 := mk_vector [1, 2] 0, 1 := mk_vector [3] 1)"




section \<open>Closed forms of the loops\<close>

lemma upt_shift: "map f [0..<Suc n] = f 0 # map (\<lambda>i. f (Suc i)) [0..<n]"
  by (simp add: upt_conv_Cons map_Suc_upt[symmetric] del: upt_Suc)

lemma uninitialized_move_n_blk:
  "uninitialized_move_n T rs (pre @ map Some xs @ post) (length pre) (length xs)
      rd (dpre @ replicate (length xs) None @ dpost) (length dpre)
   = Some (pre @ map (\<lambda>x. Some (moved_from T x)) xs @ post, dpre @ map Some xs @ dpost,
           map (\<lambda>i. Move_construct (Slot rs (length pre + i)) (Slot rd (length dpre + i)))
               [0..<length xs])"
proof (induction xs arbitrary: pre dpre)
  case Nil
  then show ?case by simp
next
  case (Cons x xs)
  have "uninitialized_move_n T rs ((pre @ [Some (moved_from T x)]) @ map Some xs @ post)
          (length (pre @ [Some (moved_from T x)])) (length xs)
          rd ((dpre @ [Some x]) @ replicate (length xs) None @ dpost) (length (dpre @ [Some x]))
        = Some ((pre @ [Some (moved_from T x)]) @ map (\<lambda>x. Some (moved_from T x)) xs @ post,
                (dpre @ [Some x]) @ map Some xs @ dpost,
                map (\<lambda>i. Move_construct (Slot rs (length (pre @ [Some (moved_from T x)]) + i))
                       (Slot rd (length (dpre @ [Some x]) + i))) [0..<length xs])"
    by (rule Cons.IH)
  then show ?case
    by (simp add: read_def construct_at_def upt_shift del: upt_Suc)
qed

lemma uninitialized_copy_n_blk:
  "\<forall>x \<in> set xs. \<not> copy_throws T x \<Longrightarrow>
   uninitialized_copy_n T rs (pre @ map Some xs @ post) (length pre) (length xs)
      rd (dpre @ replicate (length xs) None @ dpost) (length dpre)
   = Ok (dpre @ map Some xs @ dpost,
           map (\<lambda>i. Copy_construct (Slot rs (length pre + i)) (Slot rd (length dpre + i)))
               [0..<length xs])"
proof (induction xs arbitrary: pre dpre)
  case Nil
  then show ?case by simp
next
  case (Cons x xs)
  have "uninitialized_copy_n T rs ((pre @ [Some x]) @ map Some xs @ post)
          (length (pre @ [Some x])) (length xs)
          rd ((dpre @ [Some x]) @ replicate (length xs) None @ dpost) (length (dpre @ [Some x]))
        = Ok ((dpre @ [Some x]) @ map Some xs @ dpost,
                map (\<lambda>i. Copy_construct (Slot rs (length (pre @ [Some x]) + i))
                       (Slot rd (length (dpre @ [Some x]) + i))) [0..<length xs])"
    using Cons.prems by (intro Cons.IH) simp
  then show ?case using Cons.prems
    by (simp add: read_def construct_at_def copy_construct_def upt_shift del: upt_Suc)
qed

lemma destroy_n_blk:
  "destroy_n r (pre @ map Some xs @ post) (length pre) (length xs)
   = Some (pre @ replicate (length xs) None @ post,
           map (\<lambda>i. Destroy (Slot r (length pre + i))) [0..<length xs])"
proof (induction xs arbitrary: pre)
  case Nil
  then show ?case by simp
next
  case (Cons x xs)
  have "destroy_n r ((pre @ [None]) @ map Some xs @ post) (length (pre @ [None])) (length xs)
        = Some ((pre @ [None]) @ replicate (length xs) None @ post,
           map (\<lambda>i. Destroy (Slot r (length (pre @ [None]) + i))) [0..<length xs])"
    by (rule Cons.IH)
  then show ?case
    by (simp add: destroy_at_def upt_shift del: upt_Suc)
qed

lemma uninitialized_copy_n_throw:
  "\<exists>x \<in> set xs. copy_throws T x \<Longrightarrow>
   \<exists>es. uninitialized_copy_n T rs (pre @ map Some xs @ post) (length pre) (length xs)
      rd (dpre @ replicate (length xs) None @ dpost) (length dpre)
   = Exn (dpre @ replicate (length xs) None @ dpost, es)"
proof (induction xs arbitrary: pre dpre)
  case Nil
  then show ?case by simp
next
  case (Cons x xs)
  show ?case
  proof (cases "copy_throws T x")
    case True
    then show ?thesis by (simp add: read_def copy_construct_def)
  next
    case False
    with Cons.prems have "\<exists>x \<in> set xs. copy_throws T x" by simp
    from Cons.IH [OF this, of "pre @ [Some x]" "dpre @ [Some x]"]
    obtain es where "uninitialized_copy_n T rs ((pre @ [Some x]) @ map Some xs @ post)
          (length (pre @ [Some x])) (length xs)
          rd ((dpre @ [Some x]) @ replicate (length xs) None @ dpost) (length (dpre @ [Some x]))
        = Exn ((dpre @ [Some x]) @ replicate (length xs) None @ dpost, es)" by blast
    with False show ?thesis
      by (simp add: read_def construct_at_def copy_construct_def list_update_append1)
  qed
qed

lemma wf_mk_vector: "wf (mk_vector xs k)"
  by (auto simp: wf_def mk_vector_def nth_append)

lemma elems_mk_vector: "elems (mk_vector xs k) = xs"
  by (simp add: elems_def mk_vector_def comp_def)

lemma wf_eq_mk_vector:
  assumes "wf v"
  shows "v = mk_vector (elems v) (m_capacity (m_data v) - m_size v)"
proof -
  let ?b = "m_buffer (m_data v)"
  from assms have len: "length ?b = m_capacity (m_data v)" and le: "m_size v \<le> m_capacity (m_data v)"
    and live: "\<And>i. i < m_capacity (m_data v) \<Longrightarrow> (?b ! i \<noteq> None) = (i < m_size v)"
    by (auto simp: wf_def)
  have "?b = map Some (elems v) @ replicate (m_capacity (m_data v) - m_size v) None"
  proof (rule nth_equalityI)
    show "length ?b = length (map Some (elems v) @ replicate (m_capacity (m_data v) - m_size v) None)"
      using len le by (simp add: elems_def)
  next
    fix i assume "i < length ?b"
    then show "?b ! i = (map Some (elems v) @ replicate (m_capacity (m_data v) - m_size v) None) ! i"
      using len le live [of i] by (auto simp: elems_def nth_append)
  qed
  moreover have "length (elems v) = m_size v" using len le by (simp add: elems_def)
  ultimately show ?thesis using le
    by (simp add: mk_vector_def)
qed

lemma upd_at: "length p = n \<Longrightarrow> (p @ y # q)[n := z] = p @ z # q"
  by (simp add: list_update_append)

lemma nth_at: "length p = n \<Longrightarrow> (p @ y # q) ! n = y"
  by (simp add: nth_append)

lemma EmplaceBack_spare:
  "EmplaceBack T ctor (mk_vector xs (Suc k)) args =
     (case ctor args of
        None \<Rightarrow> Throws [] (mk_vector xs (Suc k))
      | Some x \<Rightarrow> Returns [Construct (Slot This (length xs))] (mk_vector (xs @ [x]) k) (length xs))"
  by (simp add: EmplaceBack_def mk_vector_def construct_at_def nth_at upd_at split: option.split)

lemma EmplaceBack_full_ctor_throws:
  "ctor args = None \<Longrightarrow>
   EmplaceBack T ctor (mk_vector xs 0) args =
     Throws [Allocate (grown (length xs)), Deallocate NewData] (mk_vector xs 0)"
  by (simp add: EmplaceBack_def mk_vector_def grown_def Let_def)

lemma FillNewData_ok:
  assumes "is_nothrow_move_constructible T \<or> \<not> is_copy_constructible T \<or>
           (\<forall>x \<in> set xs. \<not> copy_throws T x)"
  shows "FillNewData T (mk_vector xs k)
           \<lparr>m_buffer = replicate (length xs) None @ post, m_capacity = c\<rparr> =
         Ok (if is_nothrow_move_constructible T \<or> \<not> is_copy_constructible T
             then mk_vector (map (moved_from T) xs) k else mk_vector xs k,
             \<lparr>m_buffer = map Some xs @ post, m_capacity = c\<rparr>,
             transfer_events T (length xs))"
proof (cases "is_nothrow_move_constructible T \<or> \<not> is_copy_constructible T")
  case True
  then show ?thesis
    using uninitialized_move_n_blk [of T This "[]" xs "replicate k None" NewData "[]" post]
    by (simp add: FillNewData_def mk_vector_def transfer_events_def comp_def)
next
  case False
  with assms have "\<forall>x \<in> set xs. \<not> copy_throws T x" by blast
  from uninitialized_copy_n_blk [OF this, of This "[]" "replicate k None" NewData "[]" post] False
  show ?thesis
    by (simp add: FillNewData_def mk_vector_def transfer_events_def)
qed

lemma FillNewData_throws:
  assumes "\<not> (is_nothrow_move_constructible T \<or> \<not> is_copy_constructible T)"
    and "\<exists>x \<in> set xs. copy_throws T x"
  shows "\<exists>es. FillNewData T (mk_vector xs k)
           \<lparr>m_buffer = replicate (length xs) None @ post, m_capacity = c\<rparr> =
         Exn (mk_vector xs k, \<lparr>m_buffer = replicate (length xs) None @ post, m_capacity = c\<rparr>, es)"
proof -
  from uninitialized_copy_n_throw [OF assms(2), where rs = This and pre = "[]"
      and post = "replicate k None" and rd = NewData and dpre = "[]" and dpost = post]
  obtain es where "uninitialized_copy_n T This (map Some xs @ replicate k None) 0 (length xs)
      NewData (replicate (length xs) None @ post) 0
   = Exn (replicate (length xs) None @ post, es)" by auto
  with assms(1) show ?thesis
    by (simp add: FillNewData_def mk_vector_def)
qed

lemma new_block_construct:
  "construct_at (m_buffer (RawMemory_new (grown n))) n x =
     Some (replicate n None @ Some x # replicate (grown n - Suc n) None)"
proof -
  have lt: "n < grown n" by (simp add: grown_def)
  then have "grown n = n + Suc (grown n - Suc n)" by simp
  then have "replicate (grown n) (None :: 'a option) =
             replicate (n + Suc (grown n - Suc n)) None"
    by simp
  then have "replicate (grown n) (None :: 'a option) =
             replicate n None @ None # replicate (grown n - Suc n) None"
    by (simp only: replicate_add replicate_Suc)
  then show ?thesis using lt
    by (simp add: construct_at_def RawMemory_new_def nth_at upd_at)
qed

lemma destroy_all:
  "length ys = n \<Longrightarrow>
   destroy_n This (m_buffer (m_data (mk_vector ys k))) 0 n =
     Some (replicate n None @ replicate k None, map (\<lambda>i. Destroy (Slot This i)) [0..<n])"
  using destroy_n_blk [of This "[]" ys "replicate k None"]
  by (auto simp: mk_vector_def)

lemma mk_vector_sel [simp]:
  "m_size (mk_vector ys k) = length ys"
  "m_capacity (m_data (mk_vector ys k)) = length ys + k"
  by (simp_all add: mk_vector_def)

lemma EmplaceBack_full_ok:
  assumes "ctor args = Some x"
    and "is_nothrow_move_constructible T \<or> \<not> is_copy_constructible T \<or>
           (\<forall>y \<in> set xs. \<not> copy_throws T y)"
  shows "EmplaceBack T ctor (mk_vector xs 0) args =
     Returns ([Allocate (grown (length xs)), Construct (Slot NewData (length xs))]
              @ transfer_events T (length xs)
              @ map (\<lambda>i. Destroy (Slot This i)) [0..<length xs] @ [Deallocate This])
       (mk_vector (xs @ [x]) (grown (length xs) - Suc (length xs))) (length xs)"
proof -
  let ?n = "length xs"
  let ?nd = "\<lparr>m_buffer = replicate ?n None @ Some x # replicate (grown ?n - Suc ?n) None,
              m_capacity = grown ?n\<rparr>"
  let ?v' = "if is_nothrow_move_constructible T \<or> \<not> is_copy_constructible T
             then mk_vector (map (moved_from T) xs) 0 else mk_vector xs 0"
  have lt: "?n < grown ?n" by (simp add: grown_def)
  have nd: "(RawMemory_new (grown ?n) :: 'a RawMemory)
              \<lparr>m_buffer := replicate ?n None @ Some x # replicate (grown ?n - Suc ?n) None\<rparr> = ?nd"
    by (simp add: RawMemory_new_def)
  have fill: "FillNewData T (mk_vector xs 0) ?nd =
     Ok (?v', \<lparr>m_buffer = map Some xs @ Some x # replicate (grown ?n - Suc ?n) None,
              m_capacity = grown ?n\<rparr>, transfer_events T ?n)"
    by (rule FillNewData_ok [OF assms(2)])
  have sz: "m_size ?v' = ?n" by simp
  have des: "destroy_n This (m_buffer (m_data ?v')) 0 ?n =
     Some (replicate ?n None @ replicate 0 None, map (\<lambda>i. Destroy (Slot This i)) [0..<?n])"
    by (simp add: destroy_all)
  have fin: "?v'\<lparr>m_data := \<lparr>m_buffer = map Some xs @ Some x # replicate (grown ?n - Suc ?n) None,
              m_capacity = grown ?n\<rparr>, m_size := ?n + 1\<rparr> = mk_vector (xs @ [x]) (grown ?n - Suc ?n)"
    using lt by (simp add: mk_vector_def)
  have "EmplaceBack T ctor (mk_vector xs 0) args =
        Returns ([Allocate (grown ?n), Construct (Slot NewData ?n)] @ transfer_events T ?n
              @ map (\<lambda>i. Destroy (Slot This i)) [0..<?n] @ [Deallocate This])
          (?v'\<lparr>m_data := \<lparr>m_buffer = map Some xs @ Some x # replicate (grown ?n - Suc ?n) None,
              m_capacity = grown ?n\<rparr>, m_size := ?n + 1\<rparr>) ?n"
    unfolding EmplaceBack_def Let_def
    by (simp only: mk_vector_sel assms(1) new_block_construct nd fill sz des lt
        option.case result.case prod.case if_True if_False less_irrefl add_0_right
        RawMemory.select_convs)
  then show ?thesis by (simp only: fin)
qed

lemma EmplaceBack_full_copy_throws:
  assumes "ctor args = Some x"
    and "\<not> (is_nothrow_move_constructible T \<or> \<not> is_copy_constructible T)"
    and "\<exists>y \<in> set xs. copy_throws T y"
  shows "\<exists>es. EmplaceBack T ctor (mk_vector xs 0) args =
     Throws ([Allocate (grown (length xs)), Construct (Slot NewData (length xs))] @ es
             @ [Deallocate NewData]) (mk_vector xs 0)"
proof -
  let ?n = "length xs"
  let ?nd = "\<lparr>m_buffer = replicate ?n None @ Some x # replicate (grown ?n - Suc ?n) None,
              m_capacity = grown ?n\<rparr>"
  have nd: "(RawMemory_new (grown ?n) :: 'a RawMemory)
              \<lparr>m_buffer := replicate ?n None @ Some x # replicate (grown ?n - Suc ?n) None\<rparr> = ?nd"
    by (simp add: RawMemory_new_def)
  from FillNewData_throws [OF assms(2,3), of 0 "Some x # replicate (grown ?n - Suc ?n) None" "grown ?n"]
  obtain es where fill: "FillNewData T (mk_vector xs 0) ?nd = Exn (mk_vector xs 0, ?nd, es)"
    by blast
  have "EmplaceBack T ctor (mk_vector xs 0) args =
     Throws ([Allocate (grown ?n), Construct (Slot NewData ?n)] @ es @ [Deallocate NewData])
       (mk_vector xs 0)"
    unfolding EmplaceBack_def Let_def
    by (simp only: mk_vector_sel assms(1) new_block_construct nd fill
        option.case result.case prod.case if_True if_False less_irrefl add_0_right)
  then show ?thesis by blast
qed

lemma wf_cases:
  assumes "wf v"
  obtains xs k where "v = mk_vector xs k"
  using wf_eq_mk_vector [OF assms] by blast

lemma Size_mk_vector [simp]: "Size (mk_vector xs k) = length xs"
  by (simp add: Size_def)

lemma Capacity_mk_vector [simp]: "Capacity (mk_vector xs k) = length xs + k"
  by (simp add: Capacity_def)

lemma mk_vector_inject [simp]: "mk_vector xs k = mk_vector ys j \<longleftrightarrow> xs = ys \<and> k = j"
proof
  assume eq: "mk_vector xs k = mk_vector ys j"
  then have len: "length xs = length ys"
    by (simp add: mk_vector_def)
  from eq have "map Some xs @ replicate k None = map Some ys @ replicate j None"
    and "length xs + k = length ys + j"
    by (simp_all add: mk_vector_def)
  with len have "map Some xs = map Some ys" and "k = j" by simp_all
  then show "xs = ys \<and> k = j" by simp
qed simp

text \<open>What \<open>EmplaceBack\<close> does on a well-formed vector, case by case.\<close>

lemma EmplaceBack_mk_vector_cases:
  "(\<exists>x es. ctor args = Some x \<and>
      EmplaceBack T ctor (mk_vector xs k) args =
        Returns es (mk_vector (xs @ [x]) (if k = 0 then grown (length xs) - Suc (length xs) else k - 1))
          (length xs)) \<or>
   (\<exists>es. EmplaceBack T ctor (mk_vector xs k) args = Throws es (mk_vector xs k))"
proof (cases k)
  case (Suc j)
  then show ?thesis
    by (cases "ctor args") (simp_all add: EmplaceBack_spare)
next
  case 0
  show ?thesis
  proof (cases "ctor args")
    case None
    with 0 show ?thesis by (simp add: EmplaceBack_full_ctor_throws)
  next
    case (Some x)
    show ?thesis
    proof (cases "is_nothrow_move_constructible T \<or> \<not> is_copy_constructible T \<or>
           (\<forall>y \<in> set xs. \<not> copy_throws T y)")
      case True
      from EmplaceBack_full_ok [where ctor = ctor and args = args, OF Some True] 0 Some
      show ?thesis by simp
    next
      case False
      then have "\<not> (is_nothrow_move_constructible T \<or> \<not> is_copy_constructible T)"
        and "\<exists>y \<in> set xs. copy_throws T y" by auto
      from EmplaceBack_full_copy_throws [where ctor = ctor and args = args, OF Some this] 0
      show ?thesis by auto
    qed
  qed
qed

lemma EmplaceBack_mk_vector_Returns:
  assumes "EmplaceBack T ctor (mk_vector xs k) args = Returns es v' r"
  shows "\<exists>x. ctor args = Some x \<and> r = length xs \<and>
           v' = mk_vector (xs @ [x]) (if k = 0 then grown (length xs) - Suc (length xs) else k - 1)"
  using EmplaceBack_mk_vector_cases [of ctor args T xs k] assms by auto

lemma EmplaceBack_mk_vector_Throws:
  assumes "EmplaceBack T ctor (mk_vector xs k) args = Throws es v'"
  shows "v' = mk_vector xs k"
  using EmplaceBack_mk_vector_cases [of ctor args T xs k] assms by auto


lemmas run_defs = EmplaceBack_def PushBack_def PopBack_def FillNewData_def grown_def
  RawMemory_new_def construct_at_def destroy_at_def assign_at_def read_def copy_construct_def
  mk_vector_def trivial_type_def fragile_type_def Let_def eval_nat_numeral
  Size_def Capacity_def elems_def Vector_default_def

section \<open>EmplaceBack, PushBack and PopBack\<close>

text \<open>
  C10. On a vector that satisfies the class invariant, when \<open>EmplaceBack\<close> returns,
  the reference it returns denotes the slot of index \<open>Size() - 1\<close> of the vector after
  the call, and that slot holds the object constructed from the arguments.
\<close>

theorem EmplaceBack_returns_new_last:
  assumes "wf v" and "EmplaceBack T ctor v args = Returns es v' r"
  shows "r < Size v' \<and> r = Size v' - 1 \<and> ctor args = Some (elems v' ! r) \<and>
         read (m_buffer (m_data v')) r = ctor args"
proof -
  from assms(1) obtain xs k where v: "v = mk_vector xs k" by (rule wf_cases)
  from EmplaceBack_mk_vector_Returns [OF assms(2) [unfolded v]]
  obtain x k' where x: "ctor args = Some x" and r: "r = length xs"
    and v': "v' = mk_vector (xs @ [x]) k'" by blast
  have "read (m_buffer (m_data v')) r = Some x"
    unfolding v' r by (simp add: mk_vector_def read_def nth_at)
  with x r v' show ?thesis
    by (simp add: elems_mk_vector)
qed

theorem EmplaceBack_returns_new_last_witness:
  "wf (mk_vector [4, 5 :: nat] 0) \<and>
   EmplaceBack trivial_type Some (mk_vector [4, 5 :: nat] 0) 6 =
     Returns [Allocate 4, Construct (Slot NewData 2),
              Move_construct (Slot This 0) (Slot NewData 0),
              Move_construct (Slot This 1) (Slot NewData 1),
              Destroy (Slot This 0), Destroy (Slot This 1), Deallocate This]
       (mk_vector [4, 5, 6] 1) 2 \<and>
   (2 :: nat) < Size (mk_vector [4, 5, 6 :: nat] 1) \<and>
   Some (6 :: nat) = Some (elems (mk_vector [4, 5, 6 :: nat] 1) ! 2)"
proof -
  have h1: "wf (mk_vector [4, 5 :: nat] 0)" by (rule wf_mk_vector)
  have h2: "EmplaceBack trivial_type Some (mk_vector [4, 5 :: nat] 0) 6 =
     Returns [Allocate 4, Construct (Slot NewData 2),
              Move_construct (Slot This 0) (Slot NewData 0),
              Move_construct (Slot This 1) (Slot NewData 1),
              Destroy (Slot This 0), Destroy (Slot This 1), Deallocate This]
       (mk_vector [4, 5, 6] 1) 2"
    by (simp add: run_defs)
  from EmplaceBack_returns_new_last [OF h1 h2] h1 h2 show ?thesis by simp
qed



lemma PopBack_mk_vector:
  "PopBack (mk_vector xs k) =
     (if xs = [] then Returns [] (mk_vector xs k) ()
      else Returns [Destroy (Slot This (length xs - 1))] (mk_vector (butlast xs) (Suc k)) ())"
proof (cases xs rule: rev_cases)
  case Nil
  then show ?thesis by (simp add: PopBack_def)
next
  case (snoc ys y)
  have "(map Some ys @ Some y # replicate k None)[length ys := None]
        = map Some ys @ None # replicate k None"
    by (simp add: upd_at)
  with snoc show ?thesis
    by (simp add: PopBack_def destroy_at_def mk_vector_def nth_at)
qed

lemma PushBack_mk_vector_cases:
  "(\<exists>x es k'. forward_construct T val = Some x \<and>
      PushBack T (mk_vector xs k) val = Returns es (mk_vector (xs @ [x]) k') ()) \<or>
   (\<exists>es. PushBack T (mk_vector xs k) val = Throws es (mk_vector xs k))"
  using EmplaceBack_mk_vector_cases [of "forward_construct T" val T xs k]
  by (auto simp: PushBack_def)

lemma forward_construct_Some: "forward_construct T val = Some x \<Longrightarrow> x = value_of val"
  by (cases val) (auto simp: copy_construct_def split: if_splits)

lemma run_mk_vector:
  "(\<exists>k'. run T (mk_vector xs k) ops = Ok (mk_vector (stack_after xs ops) k')) \<or>
   (\<exists>v'. run T (mk_vector xs k) ops = Exn v')"
proof (induction ops arbitrary: xs k)
  case Nil
  then show ?case by simp
next
  case (Cons op ops)
  show ?case
  proof (cases op)
    case (Push val)
    from PushBack_mk_vector_cases [of T val xs k] show ?thesis
    proof (elim disjE exE conjE)
      fix x es k'
      assume "forward_construct T val = Some x"
        and "PushBack T (mk_vector xs k) val = Returns es (mk_vector (xs @ [x]) k') ()"
      with Cons.IH [of "xs @ [value_of val]" k'] Push show ?thesis
        by (auto dest!: forward_construct_Some)
    next
      fix es assume "PushBack T (mk_vector xs k) val = Throws es (mk_vector xs k)"
      with Push show ?thesis by simp
    qed
  next
    case Pop
    with Cons.IH [of "butlast xs" "Suc k"] Cons.IH [of xs k] show ?thesis
      by (cases "xs = []") (auto simp: PopBack_mk_vector)
  qed
qed

lemma length_stack_after:
  "never_underflows (length xs) ops \<Longrightarrow>
   int (length (stack_after xs ops)) = int (length xs) + int (pushes ops) - int (pops ops)"
proof (induction ops arbitrary: xs)
  case Nil
  then show ?case by simp
next
  case (Cons op ops)
  show ?case
  proof (cases op)
    case (Push val)
    with Cons.prems Cons.IH [of "xs @ [value_of val]"] show ?thesis by simp
  next
    case Pop
    with Cons.prems have "xs \<noteq> []" by auto
    then have "int (length xs - Suc 0) = int (length xs) - 1"
      by (cases xs) simp_all
    with Pop Cons.prems Cons.IH [of "butlast xs"] show ?thesis by simp
  qed
qed

lemma Vector_default_mk_vector: "Vector_default = mk_vector [] 0"
  by (simp add: Vector_default_def mk_vector_def RawMemory_new_def)

lemma PushBack_mk_vector_ok:
  assumes "\<not> copy_throws T (value_of val)" and "\<forall>x \<in> set xs. \<not> copy_throws T x"
  shows "\<exists>es k'. PushBack T (mk_vector xs k) val =
           Returns es (mk_vector (xs @ [value_of val]) k') ()"
proof -
  from assms(1) have c: "forward_construct T val = Some (value_of val)"
    by (cases val) (simp_all add: copy_construct_def)
  show ?thesis
  proof (cases k)
    case (Suc j)
    with c show ?thesis by (simp add: PushBack_def EmplaceBack_spare)
  next
    case 0
    from assms(2) have "is_nothrow_move_constructible T \<or> \<not> is_copy_constructible T \<or>
           (\<forall>y \<in> set xs. \<not> copy_throws T y)" by simp
    from EmplaceBack_full_ok [where ctor = "forward_construct T" and args = val, OF c this] 0
    show ?thesis by (simp add: PushBack_def)
  qed
qed

lemma run_total:
  assumes "\<forall>x \<in> set xs. \<not> copy_throws T x"
    and "\<forall>val. Push val \<in> set ops \<longrightarrow> \<not> copy_throws T (value_of val)"
  shows "\<exists>v. run T (mk_vector xs k) ops = Ok v"
  using assms
proof (induction ops arbitrary: xs k)
  case Nil
  then show ?case by simp
next
  case (Cons op ops)
  show ?case
  proof (cases op)
    case (Push val)
    with Cons.prems have nt: "\<not> copy_throws T (value_of val)" by simp
    from PushBack_mk_vector_ok [OF nt Cons.prems(1), of k]
    obtain es k' where p: "PushBack T (mk_vector xs k) val =
           Returns es (mk_vector (xs @ [value_of val]) k') ()" by blast
    from Cons.prems nt have "\<forall>x \<in> set (xs @ [value_of val]). \<not> copy_throws T x" by simp
    from Cons.IH [OF this, of k'] Cons.prems(2) p Push show ?thesis by simp
  next
    case Pop
    from Cons.prems(1) have "\<forall>x \<in> set (butlast xs). \<not> copy_throws T x"
      by (auto dest: in_set_butlastD)
    from Cons.IH [OF this, of "Suc k"] Cons.IH [OF Cons.prems(1), of k] Cons.prems(2) Pop
    show ?thesis by (cases "xs = []") (simp_all add: PopBack_mk_vector)
  qed
qed

lemma stack_after_no_pops:
  "pops ops = 0 \<Longrightarrow> stack_after xs ops = xs @ pushed_values ops"
proof (induction ops arbitrary: xs)
  case Nil
  then show ?case by simp
next
  case (Cons op ops)
  then show ?case by (cases op) simp_all
qed

text \<open>
  C4, as the code has it. A sequence of \<open>PushBack\<close> and \<open>PopBack\<close> calls on an empty
  vector never has undefined behaviour; it runs to its end when no pushed value has a
  throwing copy; and when it runs to its end the elements are what a stack would hold,
  where a \<open>PopBack\<close> of the empty vector does nothing. Hence \<open>Size()\<close> is the number
  of pushes minus the number of pops when no \<open>PopBack\<close> meets the empty vector, and
  the elements are the pushed values in push order when there is no \<open>PopBack\<close>.
\<close>

theorem PushBack_PopBack_sequence:
  "run T Vector_default ops \<noteq> UB \<and>
   ((\<forall>val. Push val \<in> set ops \<longrightarrow> \<not> copy_throws T (value_of val)) \<longrightarrow>
      (\<exists>v. run T Vector_default ops = Ok v)) \<and>
   (\<forall>v. run T Vector_default ops = Ok v \<longrightarrow>
      wf v \<and> elems v = stack_after [] ops \<and> Size v = length (stack_after [] ops) \<and>
      (never_underflows 0 ops \<longrightarrow> int (Size v) = int (pushes ops) - int (pops ops)) \<and>
      (pops ops = 0 \<longrightarrow> elems v = pushed_values ops))"
proof (intro conjI allI impI)
  show "run T Vector_default ops \<noteq> UB"
    using run_mk_vector [of T "[]" 0 ops] by (auto simp: Vector_default_mk_vector)
next
  assume "\<forall>val. Push val \<in> set ops \<longrightarrow> \<not> copy_throws T (value_of val)"
  then show "\<exists>v. run T Vector_default ops = Ok v"
    using run_total [of "[]" T ops 0] by (simp add: Vector_default_mk_vector)
next
  fix v assume ok: "run T Vector_default ops = Ok v"
  with run_mk_vector [of T "[]" 0 ops] obtain k' where v: "v = mk_vector (stack_after [] ops) k'"
    by (auto simp: Vector_default_mk_vector)
  show "wf v" "elems v = stack_after [] ops" "Size v = length (stack_after [] ops)"
    by (simp_all add: v wf_mk_vector elems_mk_vector)
  show "int (Size v) = int (pushes ops) - int (pops ops)" if "never_underflows 0 ops"
    using length_stack_after [of "[]" ops] that by (simp add: v)
  show "elems v = pushed_values ops" if "pops ops = 0"
    using stack_after_no_pops [OF that, of "[]"] by (simp add: v elems_mk_vector)
qed

theorem PushBack_PopBack_sequence_witness:
  "run trivial_type Vector_default [Push (Lvalue 3), Push (Rvalue 4), Pop, Push (Lvalue (5 :: nat))]
     = Ok (mk_vector [3, 5] 0) \<and>
   never_underflows 0 [Push (Lvalue 3), Push (Rvalue 4), Pop, Push (Lvalue (5 :: nat))] \<and>
   int (Size (mk_vector [3, 5 :: nat] 0)) = 3 - 1 \<and>
   run trivial_type Vector_default [Push (Lvalue 3), Push (Rvalue (4 :: nat))]
     = Ok (mk_vector [3, 4] 0) \<and>
   elems (mk_vector [3, 4 :: nat] 0) = [3, 4]"
proof -
  let ?ops = "[Push (Lvalue 3), Push (Rvalue 4), Pop, Push (Lvalue (5 :: nat))]"
  let ?ops' = "[Push (Lvalue 3), Push (Rvalue (4 :: nat))]"
  have r: "run trivial_type Vector_default ?ops = Ok (mk_vector [3, 5] 0)"
    by (simp add: run_defs)
  have r': "run trivial_type Vector_default ?ops' = Ok (mk_vector [3, 4] 0)"
    by (simp add: run_defs)
  have n: "never_underflows 0 ?ops" by simp
  have p: "pops ?ops' = 0" by simp
  from PushBack_PopBack_sequence [of trivial_type ?ops] r n
  have "int (Size (mk_vector [3, 5 :: nat] 0)) = 3 - 1" by simp
  moreover from PushBack_PopBack_sequence [of trivial_type ?ops'] r' p
  have "elems (mk_vector [3, 4 :: nat] 0) = [3, 4]" by simp
  ultimately show ?thesis using r r' n by simp
qed

theorem PushBack_PopBack_counterexample:
  "run trivial_type Vector_default [Pop, Push (Rvalue (7 :: nat))] = Ok (mk_vector [7] 0) \<and>
   int (Size (mk_vector [7 :: nat] 0)) \<noteq>
     int (pushes [Pop, Push (Rvalue (7 :: nat))]) - int (pops [Pop, Push (Rvalue (7 :: nat))]) \<and>
   run trivial_type Vector_default [Push (Rvalue 1), Pop, Push (Rvalue (2 :: nat))]
     = Ok (mk_vector [2] 0) \<and>
   elems (mk_vector [2 :: nat] 0) \<noteq> pushed_values [Push (Rvalue 1), Pop, Push (Rvalue (2 :: nat))]"
  by (simp add: run_defs)

section \<open>Emplace, Insert and Erase on well-formed vectors\<close>

lemma int_offset_small: "pos < 2 ^ 31 \<Longrightarrow> int_offset pos = int pos"
  unfolding int_offset_def
  by (simp add: sint_uint signed_take_bit_int_eq_self unsigned_of_nat take_bit_nat_eq_self)

lemma move_backward_blk:
  "move_backward T r (pre @ map Some xs @ Some y # post) (length pre) (length xs)
      (Suc (length pre + length xs))
   = Some (pre @ (case xs of [] \<Rightarrow> [Some y] | x # xs' \<Rightarrow> Some (moved_from T x) # map Some xs) @ post,
           map (\<lambda>i. Move_assign (Slot r (length pre + i)) (Slot r (Suc (length pre + i))))
               (rev [0..<length xs]))"
proof (induction xs arbitrary: y post rule: rev_induct)
  case Nil
  then show ?case by simp
next
  case (snoc z zs)
  let ?b = "pre @ map Some (zs @ [z]) @ Some y # post"
  have rd: "read ?b (length pre + length zs) = Some z"
    by (simp add: read_def nth_append)
  have asg: "assign_at ?b (length pre + length zs + 1) z
               = Some ((pre @ map Some zs @ [Some z]) @ Some z # post)"
    using nth_at [of "pre @ map Some zs @ [Some z]" "Suc (length pre + length zs)" "Some y" post]
      upd_at [of "pre @ map Some zs @ [Some z]" "Suc (length pre + length zs)" "Some y" post "Some z"]
    by (simp add: assign_at_def)
  have upd: "((pre @ map Some zs @ [Some z]) @ Some z # post)
               [length pre + length zs := Some (moved_from T z)]
             = pre @ map Some zs @ Some (moved_from T z) # Some z # post"
    using upd_at [of "pre @ map Some zs" "length pre + length zs" "Some z" "Some z # post"
        "Some (moved_from T z)"]
    by simp
  have ih: "move_backward T r (pre @ map Some zs @ Some (moved_from T z) # Some z # post)
              (length pre) (length zs) (Suc (length pre + length zs))
            = Some (pre @ (case zs of [] \<Rightarrow> [Some (moved_from T z)]
                           | x # xs' \<Rightarrow> Some (moved_from T x) # map Some zs) @ Some z # post,
                    map (\<lambda>i. Move_assign (Slot r (length pre + i)) (Slot r (Suc (length pre + i))))
                      (rev [0..<length zs]))"
    by (rule snoc.IH)
  have fin: "(case zs of [] \<Rightarrow> [Some (moved_from T z)]
                | x # xs' \<Rightarrow> Some (moved_from T x) # map Some zs) @ Some z # post
             = (case zs @ [z] of [] \<Rightarrow> [Some y]
                | x # xs' \<Rightarrow> Some (moved_from T x) # map Some (zs @ [z])) @ post"
    by (cases zs) simp_all
  show ?case
    using rd asg upd ih fin by simp
qed

lemma std_move_blk:
  "std_move T r (pre @ Some y # map Some xs @ post) (Suc (length pre)) (length xs) (length pre)
   = Some (pre @ map Some xs @ Some (if xs = [] then y else moved_from T (last xs)) # post,
           map (\<lambda>i. Move_assign (Slot r (Suc (length pre + i))) (Slot r (length pre + i)))
               [0..<length xs])"
proof (induction xs arbitrary: pre y)
  case Nil
  then show ?case by simp
next
  case (Cons x xs)
  let ?b = "pre @ Some y # map Some (x # xs) @ post"
  have rd: "read ?b (Suc (length pre)) = Some x"
    by (simp add: read_def nth_append)
  have asg: "assign_at ?b (length pre) x = Some (pre @ Some x # map Some (x # xs) @ post)"
    by (simp add: assign_at_def nth_at upd_at)
  have upd: "(pre @ Some x # map Some (x # xs) @ post)[Suc (length pre) := Some (moved_from T x)]
             = (pre @ [Some x]) @ Some (moved_from T x) # map Some xs @ post"
    using upd_at [of "pre @ [Some x]" "Suc (length pre)" "Some x" "map Some xs @ post"
        "Some (moved_from T x)"]
    by simp
  have ih: "std_move T r ((pre @ [Some x]) @ Some (moved_from T x) # map Some xs @ post)
              (Suc (length (pre @ [Some x]))) (length xs) (length (pre @ [Some x]))
            = Some ((pre @ [Some x]) @ map Some xs @
                      Some (if xs = [] then moved_from T x else moved_from T (last xs)) # post,
                    map (\<lambda>i. Move_assign (Slot r (Suc (length (pre @ [Some x]) + i)))
                           (Slot r (length (pre @ [Some x]) + i))) [0..<length xs])"
    by (rule Cons.IH)
  show ?case
    using rd asg upd ih by (simp add: upt_shift del: upt_Suc)
qed

lemma Emplace_inplace:
  assumes t: "ctor args = Some t" and pos: "length a < 2 ^ 31"
  shows "Emplace T ctor (mk_vector (a @ b' @ [l]) (Suc k)) (length a) args =
     Returns ([Construct Tmp,
               Move_construct (Slot This (length a + length b')) (Slot This (Suc (length a + length b')))]
              @ shift_events (length a) (length b')
              @ [Move_assign Tmp (Slot This (length a)), Destroy Tmp])
       (mk_vector (a @ t # b' @ [l]) k) (length a)"
proof -
  let ?v = "mk_vector (a @ b' @ [l]) (Suc k)"
  let ?n = "length a + length b'"
  let ?rest = "replicate k (None :: 'a option)"
  let ?p = "map Some a @ map Some b'"
  let ?ml = "Some (moved_from T l)"
  have sz: "m_size ?v = Suc ?n" "m_capacity (m_data ?v) = Suc (Suc ?n) + k"
    by simp_all
  have buf: "m_buffer (m_data ?v) = (?p @ [Some l]) @ None # ?rest"
    by (simp add: mk_vector_def)
  have off: "int_offset (length a) = int (length a)"
    by (rule int_offset_small [OF pos])
  have rd: "read ((?p @ [Some l]) @ None # ?rest) ?n = Some l"
    using nth_at [of ?p ?n "Some l" "None # ?rest"] by (simp add: read_def)
  have con: "construct_at ((?p @ [Some l]) @ None # ?rest) (Suc ?n) l
               = Some ((?p @ [Some l]) @ Some l # ?rest)"
    using nth_at [of "?p @ [Some l]" "Suc ?n" None ?rest]
      upd_at [of "?p @ [Some l]" "Suc ?n" None ?rest "Some l"]
    by (simp add: construct_at_def)
  have upd: "((?p @ [Some l]) @ Some l # ?rest)[?n := ?ml]
               = map Some a @ map Some b' @ ?ml # Some l # ?rest"
    using upd_at [of ?p ?n "Some l" "Some l # ?rest" ?ml] by simp
  have mb: "move_backward T This (map Some a @ map Some b' @ ?ml # Some l # ?rest)
              (length a) (length b') (Suc ?n)
            = Some (map Some a @ (case b' of [] \<Rightarrow> [?ml] | x # xs' \<Rightarrow> Some (moved_from T x) # map Some b')
                      @ Some l # ?rest, shift_events (length a) (length b'))"
    using move_backward_blk [of T This "map Some a" b' "moved_from T l" "Some l # ?rest"]
    by (simp add: shift_events_def)
  have asg: "assign_at (map Some a @ (case b' of [] \<Rightarrow> [?ml] | x # xs' \<Rightarrow> Some (moved_from T x) # map Some b')
                      @ Some l # ?rest) (length a) t
             = Some (map Some a @ Some t # map Some b' @ Some l # ?rest)"
    by (cases b') (simp_all add: assign_at_def nth_at upd_at)
  have fin: "?v\<lparr>m_data := (m_data ?v)\<lparr>m_buffer := map Some a @ Some t # map Some b' @ Some l # ?rest\<rparr>,
               m_size := Suc ?n + 1\<rparr> = mk_vector (a @ t # b' @ [l]) k"
    by (simp add: mk_vector_def)
  have ne: "length a \<noteq> Suc ?n" "Suc ?n < Suc (Suc ?n) + k" "Suc ?n \<noteq> 0"
    "\<not> (int (length a) < 0 \<or> int (Suc ?n - 1) < int (length a))"
    "Suc ?n - 1 = ?n" "nat (int (length a)) = length a" "?n - length a = length b'"
    by simp_all
  have "Emplace T ctor ?v (length a) args =
     Returns ([Construct Tmp, Move_construct (Slot This ?n) (Slot This (Suc ?n))]
              @ shift_events (length a) (length b')
              @ [Move_assign Tmp (Slot This (length a)), Destroy Tmp])
       (?v\<lparr>m_data := (m_data ?v)\<lparr>m_buffer := map Some a @ Some t # map Some b' @ Some l # ?rest\<rparr>,
               m_size := Suc ?n + 1\<rparr>) (length a)"
    unfolding Emplace_def Let_def
    apply (simp only: sz buf off t rd con upd mb asg ne option.case prod.case if_True if_False)
    apply simp
    done
  then show ?thesis by (simp only: fin)
qed

lemma length_left_behind [simp]: "length (left_behind T xs) = length xs"
  by (simp add: left_behind_def)

lemma transfer_n_ok:
  assumes "is_nothrow_move_constructible T \<or> \<not> is_copy_constructible T \<or>
           (\<forall>x \<in> set xs. \<not> copy_throws T x)"
  shows "transfer_n T (pre @ map Some xs @ post) (length pre) (length xs)
           (dpre @ replicate (length xs) None @ dpost) (length dpre) =
         Ok (pre @ map Some (left_behind T xs) @ post,
             dpre @ map Some xs @ dpost,
             transfer_events_at T (length pre) (length xs) (length dpre))"
proof (cases "is_nothrow_move_constructible T \<or> \<not> is_copy_constructible T")
  case True
  then show ?thesis
    using uninitialized_move_n_blk [of T This pre xs post NewData dpre dpost]
    by (simp add: transfer_n_def transfer_events_at_def left_behind_def comp_def)
next
  case False
  with assms have "\<forall>x \<in> set xs. \<not> copy_throws T x" by blast
  from uninitialized_copy_n_blk [OF this, of This pre post NewData dpre dpost] False
  show ?thesis
    by (simp add: transfer_n_def transfer_events_at_def left_behind_def)
qed

lemma transfer_n_throws:
  assumes "\<not> (is_nothrow_move_constructible T \<or> \<not> is_copy_constructible T)"
    and "\<exists>x \<in> set xs. copy_throws T x"
  shows "\<exists>es. transfer_n T (pre @ map Some xs @ post) (length pre) (length xs)
           (dpre @ replicate (length xs) None @ dpost) (length dpre) =
         Exn (pre @ map Some xs @ post, dpre @ replicate (length xs) None @ dpost, es)"
proof -
  from uninitialized_copy_n_throw [OF assms(2), where rs = This and pre = pre
      and post = post and rd = NewData and dpre = dpre and dpost = dpost]
  obtain es where "uninitialized_copy_n T This (pre @ map Some xs @ post) (length pre) (length xs)
      NewData (dpre @ replicate (length xs) None @ dpost) (length dpre)
   = Exn (dpre @ replicate (length xs) None @ dpost, es)" by auto
  with assms(1) show ?thesis
    by (simp add: transfer_n_def)
qed

lemma Emplace_at_end_spare:
  assumes "length xs < 2 ^ 31"
  shows "Emplace T ctor (mk_vector xs (Suc k)) (length xs) args =
     (case ctor args of
        None \<Rightarrow> Emplace_handler [] (mk_vector xs (Suc k))
      | Some x \<Rightarrow> Returns [Construct (Slot This (length xs))] (mk_vector (xs @ [x]) k) (length xs))"
  using int_offset_small [OF assms]
  by (simp add: Emplace_def mk_vector_def construct_at_def nth_at upd_at split: option.split)

lemma Emplace_spare_throws:
  assumes "ctor args = None" and "m_size v < m_capacity (m_data v)" and "pos \<noteq> m_size v"
    and "m_size v \<noteq> 0"
  shows "Emplace T ctor v pos args = Undefined"
  using assms by (simp add: Emplace_def Emplace_handler_def)

lemma replicate_split: "n < m \<Longrightarrow> replicate m x = replicate n x @ x # replicate (m - Suc n) x"
proof -
  assume "n < m"
  then have "m = n + Suc (m - Suc n)" by simp
  then have "replicate m x = replicate (n + Suc (m - Suc n)) x" by simp
  then show ?thesis by (simp only: replicate_add replicate_Suc)
qed

lemma grown_gt: "n < grown n"
  by (simp add: grown_def)

lemma Emplace_full_ok:
  assumes t: "ctor args = Some t" and pos: "length a < 2 ^ 31"
    and nt: "is_nothrow_move_constructible T \<or> \<not> is_copy_constructible T \<or>
           (\<forall>y \<in> set (a @ b). \<not> copy_throws T y)"
  shows "Emplace T ctor (mk_vector (a @ b) 0) (length a) args =
     Returns ([Allocate (grown (length (a @ b))), Construct (Slot NewData (length a))]
              @ transfer_events_at T 0 (length a) 0
              @ transfer_events_at T (length a) (length b) (Suc (length a))
              @ map (\<lambda>i. Destroy (Slot This i)) [0..<length (a @ b)] @ [Deallocate This])
       (mk_vector (a @ t # b) (grown (length (a @ b)) - Suc (length (a @ b)))) (length a)"
proof -
  let ?v = "mk_vector (a @ b) 0"
  let ?n = "length (a @ b)"
  let ?g = "grown ?n"
  let ?M = "is_nothrow_move_constructible T \<or> \<not> is_copy_constructible T"
  let ?a' = "left_behind T a"
  let ?b' = "left_behind T b"
  let ?tail = "replicate (?g - Suc ?n) (None :: 'a option)"
  have lt: "?n < ?g" by (rule grown_gt)
  have sz: "m_size ?v = ?n" "m_capacity (m_data ?v) = ?n"
    by simp_all
  have buf: "m_buffer (m_data ?v) = [] @ map Some a @ map Some b"
    by (simp add: mk_vector_def)
  have off: "int_offset (length a) = int (length a)"
    by (rule int_offset_small [OF pos])
  have nb0: "m_buffer (RawMemory_new ?g :: 'a RawMemory)
             = replicate (length a) None @ None # replicate (length b) None @ ?tail"
  proof -
    have "length a < ?g" using lt by simp
    from replicate_split [OF this, of "None :: 'a option"]
    have "replicate ?g (None :: 'a option)
          = replicate (length a) None @ None # replicate (?g - Suc (length a)) None" .
    moreover have "?g - Suc (length a) = length b + (?g - Suc ?n)" using lt by simp
    ultimately show ?thesis by (simp add: RawMemory_new_def replicate_add)
  qed
  have con: "construct_at (replicate (length a) None @ None # replicate (length b) None @ ?tail)
               (length a) t
             = Some ([] @ replicate (length a) None @ Some t # replicate (length b) None @ ?tail)"
    by (simp add: construct_at_def nth_at upd_at)
  have nta: "?M \<or> (\<forall>y \<in> set a. \<not> copy_throws T y)" and ntb: "?M \<or> (\<forall>y \<in> set b. \<not> copy_throws T y)"
    using nt by auto
  have tr1: "transfer_n T ([] @ map Some a @ map Some b) 0 (length a)
               ([] @ replicate (length a) None @ Some t # replicate (length b) None @ ?tail) 0
             = Ok (map Some ?a' @ map Some b,
                   (map Some a @ [Some t]) @ replicate (length b) None @ ?tail,
                   transfer_events_at T 0 (length a) 0)"
    using transfer_n_ok [of T a "[]" "map Some b" "[]" "Some t # replicate (length b) None @ ?tail"] nta
    by simp
  have tr2: "transfer_n T (map Some ?a' @ map Some b) (length a) (length b)
               ((map Some a @ [Some t]) @ replicate (length b) None @ ?tail) (length a + 1)
             = Ok ([] @ map Some (?a' @ ?b') @ [],
                   map Some a @ Some t # map Some b @ ?tail,
                   transfer_events_at T (length a) (length b) (Suc (length a)))"
    using transfer_n_ok [of T b "map Some ?a'" "[]" "map Some a @ [Some t]" ?tail] ntb
    by simp
  have des: "destroy_n This ([] @ map Some (?a' @ ?b') @ []) 0 ?n
             = Some (replicate ?n None, map (\<lambda>i. Destroy (Slot This i)) [0..<?n])"
    using destroy_n_blk [of This "[]" "?a' @ ?b'" "[]"] by simp
  have fin: "?v\<lparr>m_data := (RawMemory_new ?g)\<lparr>m_buffer := map Some a @ Some t # map Some b @ ?tail\<rparr>,
               m_size := ?n + 1\<rparr> = mk_vector (a @ t # b) (?g - Suc ?n)"
    using lt by (simp add: mk_vector_def RawMemory_new_def)
  have ne: "\<not> ?n < ?n" "\<not> int (length a) < 0" "nat (int (length a)) = length a"
    "\<not> ?n < length a" "?n - length a = length b" "\<not> int ?g < int (length a)"
    using lt by simp_all
  have "Emplace T ctor ?v (length a) args =
     Returns ([Allocate ?g, Construct (Slot NewData (length a))]
              @ transfer_events_at T 0 (length a) 0
              @ transfer_events_at T (length a) (length b) (Suc (length a))
              @ map (\<lambda>i. Destroy (Slot This i)) [0..<?n] @ [Deallocate This])
       (?v\<lparr>m_data := (RawMemory_new ?g)\<lparr>m_buffer := map Some a @ Some t # map Some b @ ?tail\<rparr>,
               m_size := ?n + 1\<rparr>) (length a)"
    unfolding Emplace_def Let_def
    apply (simp only: sz buf off t nb0 con tr1 tr2 des ne option.case prod.case result.case
        if_True if_False)
    done
  then show ?thesis by (simp only: fin)
qed

lemma Erase_mk_vector:
  assumes pos: "length a < 2 ^ 31"
  shows "Erase T (mk_vector (a @ x # b) k) (length a) =
     Returns (map (\<lambda>i. Move_assign (Slot This (Suc (length a + i))) (Slot This (length a + i)))
                [0..<length b]
              @ [Destroy (Slot This (length a + length b))])
       (mk_vector (a @ b) (Suc k)) (length a)"
proof -
  let ?v = "mk_vector (a @ x # b) k"
  let ?rest = "replicate k (None :: 'a option)"
  let ?y = "Some (if b = [] then x else moved_from T (last b))"
  have sz: "m_size ?v = Suc (length a + length b)" by simp
  have buf: "m_buffer (m_data ?v) = map Some a @ Some x # map Some b @ ?rest"
    by (simp add: mk_vector_def)
  have off: "int_offset (length a) = int (length a)"
    by (rule int_offset_small [OF pos])
  have mv: "std_move T This (map Some a @ Some x # map Some b @ ?rest) (length a + 1) (length b)
              (length a)
            = Some ((map Some a @ map Some b) @ ?y # ?rest,
                    map (\<lambda>i. Move_assign (Slot This (Suc (length a + i))) (Slot This (length a + i)))
                      [0..<length b])"
    using std_move_blk [of T This "map Some a" x b ?rest] by simp
  have des: "destroy_at ((map Some a @ map Some b) @ ?y # ?rest) (length a + length b)
             = Some (map Some a @ map Some b @ None # ?rest)"
    using nth_at [of "map Some a @ map Some b" "length a + length b" ?y ?rest]
      upd_at [of "map Some a @ map Some b" "length a + length b" ?y ?rest None]
    by (simp add: destroy_at_def)
  have fin: "?v\<lparr>m_data := (m_data ?v)\<lparr>m_buffer := map Some a @ map Some b @ None # ?rest\<rparr>,
               m_size := length a + length b\<rparr> = mk_vector (a @ b) (Suc k)"
    by (simp add: mk_vector_def)
  have ne: "\<not> (int (length a) < 0 \<or> int (Suc (length a + length b)) < int (length a) + 1)"
    "nat (int (length a)) = length a" "Suc (length a + length b) - (length a + 1) = length b"
    "Suc (length a + length b) - 1 = length a + length b"
    by simp_all
  have "Erase T ?v (length a) =
     Returns (map (\<lambda>i. Move_assign (Slot This (Suc (length a + i))) (Slot This (length a + i)))
                [0..<length b]
              @ [Destroy (Slot This (length a + length b))])
       (?v\<lparr>m_data := (m_data ?v)\<lparr>m_buffer := map Some a @ map Some b @ None # ?rest\<rparr>,
               m_size := length a + length b\<rparr>) (length a)"
    unfolding Erase_def Let_def
    apply (simp only: sz buf off mv des ne option.case prod.case if_True if_False)
    done
  then show ?thesis by (simp only: fin)
qed

lemma Emplace_full_ctor_throws:
  assumes "ctor args = None" and "length a < 2 ^ 31"
  shows "Emplace T ctor (mk_vector (a @ b) 0) (length a) args =
     Throws [Allocate (grown (length (a @ b))), Deallocate NewData] (mk_vector (a @ b) 0)"
  using assms(1) int_offset_small [OF assms(2)]
  by (simp add: Emplace_def Let_def)

lemma Emplace_full_copy_throws:
  assumes t: "ctor args = Some t" and pos: "length a < 2 ^ 31"
    and M: "\<not> (is_nothrow_move_constructible T \<or> \<not> is_copy_constructible T)"
    and th: "\<exists>y \<in> set (a @ b). copy_throws T y"
  shows "\<exists>es. Emplace T ctor (mk_vector (a @ b) 0) (length a) args =
           Throws es (mk_vector (a @ b) 0)"
proof -
  let ?v = "mk_vector (a @ b) 0"
  let ?n = "length (a @ b)"
  let ?g = "grown ?n"
  let ?tail = "replicate (?g - Suc ?n) (None :: 'a option)"
  have lt: "?n < ?g" by (rule grown_gt)
  have sz: "m_size ?v = ?n" "m_capacity (m_data ?v) = ?n"
    by simp_all
  have buf: "m_buffer (m_data ?v) = [] @ map Some a @ map Some b"
    by (simp add: mk_vector_def)
  have off: "int_offset (length a) = int (length a)"
    by (rule int_offset_small [OF pos])
  have nb0: "m_buffer (RawMemory_new ?g :: 'a RawMemory)
             = replicate (length a) None @ None # replicate (length b) None @ ?tail"
  proof -
    have "length a < ?g" using lt by simp
    from replicate_split [OF this, of "None :: 'a option"]
    have "replicate ?g (None :: 'a option)
          = replicate (length a) None @ None # replicate (?g - Suc (length a)) None" .
    moreover have "?g - Suc (length a) = length b + (?g - Suc ?n)" using lt by simp
    ultimately show ?thesis by (simp add: RawMemory_new_def replicate_add)
  qed
  have con: "construct_at (replicate (length a) None @ None # replicate (length b) None @ ?tail)
               (length a) t
             = Some ([] @ replicate (length a) None @ Some t # replicate (length b) None @ ?tail)"
    by (simp add: construct_at_def nth_at upd_at)
  have same: "?v\<lparr>m_data := (m_data ?v)\<lparr>m_buffer := [] @ map Some a @ map Some b\<rparr>\<rparr> = ?v"
    "?v\<lparr>m_data := (m_data ?v)\<lparr>m_buffer := map Some a @ map Some b @ []\<rparr>\<rparr> = ?v"
    by (simp_all add: mk_vector_def)
  have ne: "\<not> ?n < ?n" "\<not> int (length a) < 0" "nat (int (length a)) = length a"
    "\<not> ?n < length a" "?n - length a = length b"
    using lt by simp_all
  show ?thesis
  proof (cases "\<exists>y \<in> set a. copy_throws T y")
    case True
    from transfer_n_throws [OF M True, of "[]" "map Some b" "[]"
        "Some t # replicate (length b) None @ ?tail"]
    obtain es where tr1: "transfer_n T ([] @ map Some a @ map Some b) 0 (length a)
               ([] @ replicate (length a) None @ Some t # replicate (length b) None @ ?tail) 0
             = Exn ([] @ map Some a @ map Some b,
                    [] @ replicate (length a) None @ Some t # replicate (length b) None @ ?tail, es)"
      by auto
    have "Emplace T ctor ?v (length a) args =
            Throws ([Allocate ?g, Construct (Slot NewData (length a))] @ es @ [Deallocate NewData]) ?v"
      unfolding Emplace_def Let_def
      by (simp only: sz buf off t nb0 con tr1 ne same option.case prod.case result.case
          if_True if_False)
    then show ?thesis by blast
  next
    case False
    with th have thb: "\<exists>y \<in> set b. copy_throws T y" by auto
    from False have nta: "is_nothrow_move_constructible T \<or> \<not> is_copy_constructible T \<or>
           (\<forall>x \<in> set a. \<not> copy_throws T x)" by simp
    have lb: "left_behind T a = a" using M by (simp add: left_behind_def)
    have tr1: "transfer_n T ([] @ map Some a @ map Some b) 0 (length a)
               ([] @ replicate (length a) None @ Some t # replicate (length b) None @ ?tail) 0
             = Ok (map Some a @ map Some b @ [],
                   (map Some a @ [Some t]) @ replicate (length b) None @ ?tail,
                   transfer_events_at T 0 (length a) 0)"
      using transfer_n_ok [OF nta, of "[]" "map Some b" "[]"
          "Some t # replicate (length b) None @ ?tail"] lb
      by simp
    from transfer_n_throws [OF M thb, of "map Some a" "[]" "map Some a @ [Some t]" ?tail]
    obtain es where tr2: "transfer_n T (map Some a @ map Some b @ []) (length a) (length b)
               ((map Some a @ [Some t]) @ replicate (length b) None @ ?tail) (length a + 1)
             = Exn (map Some a @ map Some b @ [],
                    (map Some a @ [Some t]) @ replicate (length b) None @ ?tail, es)"
      by auto
    have "Emplace T ctor ?v (length a) args =
            Throws ([Allocate ?g, Construct (Slot NewData (length a))]
                    @ transfer_events_at T 0 (length a) 0 @ es @ [Deallocate NewData]) ?v"
      unfolding Emplace_def Let_def
      by (simp only: sz buf off t nb0 con tr1 tr2 ne same option.case prod.case result.case
          if_True if_False)
    then show ?thesis by blast
  qed
qed

lemma Emplace_mk_vector_Returns:
  assumes pos: "length a < 2 ^ 31"
    and ret: "Emplace T ctor (mk_vector (a @ b) k) (length a) args = Returns es v' r"
  shows "\<exists>t k'. ctor args = Some t \<and> v' = mk_vector (a @ t # b) k' \<and> r = length a"
proof (cases k)
  case (Suc j)
  show ?thesis
  proof (cases b rule: rev_cases)
    case Nil
    from Emplace_at_end_spare [OF pos, of T ctor j args] ret Suc Nil show ?thesis
      by (auto simp: Emplace_handler_def split: option.splits if_splits)
  next
    case (snoc b' l)
    show ?thesis
    proof (cases "ctor args")
      case None
      from Emplace_spare_throws [where ctor = ctor and args = args and T = T
          and v = "mk_vector (a @ b) k" and pos = "length a"] None ret Suc snoc
      show ?thesis by simp
    next
      case (Some t)
      from Emplace_inplace [where ctor = ctor and args = args, OF Some pos, of T b' l j]
        ret Suc snoc Some
      show ?thesis by auto
    qed
  qed
next
  case 0
  show ?thesis
  proof (cases "ctor args")
    case None
    from Emplace_full_ctor_throws [where ctor = ctor and args = args, OF None pos, of T b]
      ret 0
    show ?thesis by simp
  next
    case (Some t)
    show ?thesis
    proof (cases "is_nothrow_move_constructible T \<or> \<not> is_copy_constructible T \<or>
           (\<forall>y \<in> set (a @ b). \<not> copy_throws T y)")
      case True
      from Emplace_full_ok [where ctor = ctor and args = args, OF Some pos True] ret 0 Some
      show ?thesis by auto
    next
      case False
      then have "\<not> (is_nothrow_move_constructible T \<or> \<not> is_copy_constructible T)"
        and "\<exists>y \<in> set (a @ b). copy_throws T y" by auto
      from Emplace_full_copy_throws [where ctor = ctor and args = args, OF Some pos this] ret 0
      show ?thesis by auto
    qed
  qed
qed

text \<open>
  The round trip of \<open>Insert\<close> and \<open>Erase\<close> at the positions that fit the \<open>int offset\<close>:
  when \<open>Insert\<close> returns, \<open>Erase\<close> at the position it returned gives back the size and
  the elements the vector had.
\<close>

lemma Insert_Erase_roundtrip:
  assumes "wf v" and "pos \<le> Size v" and "pos < 2 ^ 31"
    and "Insert T v pos val = Returns es v' r"
  shows "\<exists>es' v''. Erase T v' r = Returns es' v'' r \<and> wf v'' \<and>
           Size v'' = Size v \<and> elems v'' = elems v"
proof -
  from assms(1) obtain xs k where v: "v = mk_vector xs k" by (rule wf_cases)
  define a b where "a = take pos xs" and "b = drop pos xs"
  with assms(2) have xs: "xs = a @ b" and la: "length a = pos"
    by (simp_all add: v)
  from assms(4) have "Emplace T (forward_construct T) (mk_vector (a @ b) k) (length a) val =
      Returns es v' r"
    by (simp add: Insert_def v xs la)
  from Emplace_mk_vector_Returns [OF _ this] assms(3) la
  obtain t k' where v': "v' = mk_vector (a @ t # b) k'" and r: "r = length a" by auto
  from Erase_mk_vector [of a T t b k'] assms(3) la
  show ?thesis
    by (simp add: v' r v xs wf_mk_vector elems_mk_vector)
qed

text \<open>
  C1. With spare capacity and a position before \<open>end()\<close> that fits the \<open>int offset\<close>,
  \<open>Emplace\<close> does what the claim lists (\<open>Emplace_inplace\<close>). But when the constructor of
  the temporary throws, the handler passes \<open>end()\<close> to \<open>operator delete\<close>, a pointer into
  the block: on the vector \<open>[1, 2]\<close> of capacity 3 the call
  has undefined behaviour instead of leaving the vector as it was.
\<close>

theorem Emplace_temporary_throws:
  "Size (mk_vector [1, 2 :: nat] 1) < Capacity (mk_vector [1, 2 :: nat] 1) \<and>
   0 < Size (mk_vector [1, 2 :: nat] 1) \<and>
   Emplace trivial_type (\<lambda>a. None) (mk_vector [1, 2 :: nat] 1) 0 () = Undefined"
  by (simp add: Emplace_def Emplace_handler_def)

text \<open>
  C8. For a position that fits the \<open>int offset\<close> the round trip holds
  (\<open>Insert_Erase_roundtrip\<close>). On a vector of \<open>2^31\<close> elements, \<open>Insert\<close> at \<open>end()\<close>
  narrows the offset to \<open>- 2^31\<close> and constructs the new element before the start of
  the new block.
\<close>

theorem Insert_beyond_int_offset:
  "Size (mk_vector (replicate (2 ^ 31) (0 :: nat)) 0) = 2 ^ 31 \<and>
   int_offset (2 ^ 31) = - (2 ^ 31) \<and>
   Insert trivial_type (mk_vector (replicate (2 ^ 31) (0 :: nat)) 0) (2 ^ 31) (Rvalue 0) = Undefined"
proof -
  have off: "int_offset (2 ^ 31) = - (2 ^ 31)"
    by (simp add: int_offset_def)
  then have "Insert trivial_type (mk_vector (replicate (2 ^ 31) (0 :: nat)) 0) (2 ^ 31) (Rvalue 0)
             = Undefined"
    by (simp add: Insert_def Emplace_def Let_def)
  with off show ?thesis by simp
qed

section \<open>Move construction, move assignment and Swap\<close>

lemma Vector_assign_all: "v\<lparr>m_data := m_data w, m_size := m_size w\<rparr> = (w :: 'a Vector)"
  by (cases v, cases w) simp

lemma Swap_eq:
  "Swap st this other = Returns [] (st(this := st other, other := st this)) ()"
  by (cases "this = other") (simp_all add: Swap_def Vector_assign_all fun_upd_twist)

text \<open>
  C6, as the code has it. The move constructor returns with no event at all, so it
  neither throws nor copies; the new vector is the source as it was, and the source is
  the default vector, of size 0 and capacity 0. The move assignment swaps: the source
  is left with the state the destination had, which is empty only when the destination
  was; on self-assignment nothing happens.
\<close>

theorem move_leaves_source:
  "(this \<noteq> other \<longrightarrow>
      Vector_move st this other = Returns [] (st(this := st other, other := Vector_default)) () \<and>
      Size ((st(this := st other, other := Vector_default)) other) = 0 \<and>
      Capacity ((st(this := st other, other := Vector_default)) other) = 0 \<and>
      elems ((st(this := st other, other := Vector_default)) this) = elems (st other)) \<and>
   (this \<noteq> other \<longrightarrow>
      move_assign st this other = Returns [] (st(this := st other, other := st this)) ()) \<and>
   move_assign st this this = Returns [] st ()"
  by (simp add: Vector_move_def move_assign_def Swap_eq Size_def Capacity_def
      Vector_default_def RawMemory_new_def)

theorem move_leaves_source_witness:
  "Vector_move example_store 2 0 =
     Returns [] (example_store(2 := mk_vector [1, 2] 0, 0 := Vector_default)) () \<and>
   Size ((example_store(2 := mk_vector [1, 2] 0, 0 := Vector_default)) 0) = 0 \<and>
   elems ((example_store(2 := mk_vector [1, 2] 0, 0 := Vector_default)) 2) = [1, 2] \<and>
   move_assign example_store 0 1 =
     Returns [] (example_store(0 := mk_vector [3] 1, 1 := mk_vector [1, 2] 0)) ()"
proof -
  have e: "example_store 0 = mk_vector [1, 2] 0" "example_store (Suc 0) = mk_vector [3] 1"
    by (simp_all add: example_store_def)
  have n: "(2 :: nat) \<noteq> 0" "(0 :: nat) \<noteq> 1" by simp_all
  show ?thesis
    using move_leaves_source [of 2 0 example_store] move_leaves_source [of 0 1 example_store]
    by (simp add: e elems_mk_vector)
qed

theorem move_assign_counterexample:
  "move_assign example_store 0 1 =
     Returns [] (example_store(0 := mk_vector [3] 1, 1 := mk_vector [1, 2] 0)) () \<and>
   Size ((example_store(0 := mk_vector [3] 1, 1 := mk_vector [1, 2] 0)) 1) = 2 \<and>
   Size ((example_store(0 := mk_vector [3] 1, 1 := mk_vector [1, 2] 0)) 1) \<noteq> 0"
  by (simp add: move_assign_def Swap_eq example_store_def)

section \<open>Copy construction and copy assignment\<close>

lemma std_copy_blk:
  "\<forall>x \<in> set xs. \<not> copy_throws T x \<Longrightarrow> length ys = length xs \<Longrightarrow>
   std_copy T (pre @ map Some xs @ post) (length pre) (length xs)
      (dpre @ map Some ys @ dpost) (length dpre)
   = Ok (dpre @ map Some xs @ dpost,
         map (\<lambda>i. Copy_assign (Slot Rhs (length pre + i)) (Slot This (length dpre + i)))
           [0..<length xs])"
proof (induction xs arbitrary: ys pre dpre)
  case Nil
  then show ?case by simp
next
  case (Cons x xs)
  from Cons.prems(2) obtain y ys' where ys: "ys = y # ys'" and len: "length ys' = length xs"
    by (cases ys) auto
  have "std_copy T ((pre @ [Some x]) @ map Some xs @ post) (length (pre @ [Some x])) (length xs)
          ((dpre @ [Some x]) @ map Some ys' @ dpost) (length (dpre @ [Some x]))
        = Ok ((dpre @ [Some x]) @ map Some xs @ dpost,
              map (\<lambda>i. Copy_assign (Slot Rhs (length (pre @ [Some x]) + i))
                     (Slot This (length (dpre @ [Some x]) + i))) [0..<length xs])"
    using Cons.prems(1) len by (intro Cons.IH) simp_all
  then show ?case using Cons.prems(1)
    by (simp add: ys read_def assign_at_def copy_construct_def nth_at upd_at upt_shift del: upt_Suc)
qed

lemma std_copy_throw:
  "\<exists>x \<in> set xs. copy_throws T x \<Longrightarrow> length ys = length xs \<Longrightarrow>
   \<exists>r. std_copy T (pre @ map Some xs @ post) (length pre) (length xs)
      (dpre @ map Some ys @ dpost) (length dpre) = Exn r"
proof (induction xs arbitrary: ys pre dpre)
  case Nil
  then show ?case by simp
next
  case (Cons x xs)
  from Cons.prems(2) obtain y ys' where ys: "ys = y # ys'" and len: "length ys' = length xs"
    by (cases ys) auto
  show ?case
  proof (cases "copy_throws T x")
    case True
    then show ?thesis by (simp add: read_def copy_construct_def)
  next
    case False
    with Cons.prems have "\<exists>x \<in> set xs. copy_throws T x" by simp
    from Cons.IH [OF this len, of "pre @ [Some x]" "dpre @ [Some x]"]
    obtain r where "std_copy T ((pre @ [Some x]) @ map Some xs @ post)
          (length (pre @ [Some x])) (length xs)
          ((dpre @ [Some x]) @ map Some ys' @ dpost) (length (dpre @ [Some x])) = Exn r"
      by blast
    with False show ?thesis
      by (cases r) (simp add: ys read_def assign_at_def copy_construct_def nth_at upd_at)
  qed
qed

lemma Vector_copy_ok:
  assumes "\<forall>x \<in> set ys. \<not> copy_throws T x"
  shows "Vector_copy T (mk_vector ys j) =
           Returns ([Allocate (length ys)]
                    @ map (\<lambda>i. Copy_construct (Slot Rhs i) (Slot NewData i)) [0..<length ys])
             () (mk_vector ys 0)"
  using uninitialized_copy_n_blk [OF assms, of Rhs "[]" "replicate j None" NewData "[]" "[]"]
  by (simp add: Vector_copy_def mk_vector_def RawMemory_new_def)

lemma Vector_copy_throws:
  assumes "\<exists>x \<in> set ys. copy_throws T x"
  shows "\<exists>es. Vector_copy T (mk_vector ys j) = Throws es ()"
proof -
  from uninitialized_copy_n_throw [OF assms, where rs = Rhs and pre = "[]"
      and post = "replicate j None" and rd = NewData and dpre = "[]" and dpost = "[]"]
  obtain es where "uninitialized_copy_n T Rhs (map Some ys @ replicate j None) 0 (length ys)
      NewData (replicate (length ys) None) 0 = Exn (replicate (length ys) None, es)"
    by auto
  then show ?thesis
    by (simp add: Vector_copy_def mk_vector_def RawMemory_new_def)
qed

lemma copy_assign_ok:
  assumes ne: "a \<noteq> b" and va: "st a = mk_vector xs k" and vb: "st b = mk_vector ys j"
    and nt: "\<forall>x \<in> set ys. \<not> copy_throws T x"
  shows "\<exists>es k'. copy_assign T st a b = Returns es (st(a := mk_vector ys k')) ()"
proof -
  consider (grow) "length xs + k < length ys" | (shrink) "length ys < length xs"
    | (fit) "length xs \<le> length ys" "length ys \<le> length xs + k"
    by linarith
  then show ?thesis
  proof cases
    case grow
    have des: "destroy_n This (m_buffer (m_data (mk_vector xs k))) 0 (length xs) =
       Some (replicate (length xs) None @ replicate k None,
             map (\<lambda>i. Destroy (Slot This i)) [0..<length xs])"
      by (simp add: destroy_all)
    have "copy_assign T st a b =
            Returns (([Allocate (length ys)]
                      @ map (\<lambda>i. Copy_construct (Slot Rhs i) (Slot NewData i)) [0..<length ys])
                     @ map (\<lambda>i. Destroy (Slot This i)) [0..<length xs] @ [Deallocate This])
              (st(a := mk_vector ys 0)) ()"
      using ne grow
      by (simp add: copy_assign_def Let_def va vb Vector_copy_ok [OF nt] des)
    then show ?thesis by blast
  next
    case shrink
    define xa xb where "xa = take (length ys) xs" and "xb = drop (length ys) xs"
    with shrink have xs: "xs = xa @ xb" and la: "length xa = length ys"
      by simp_all
    have buf: "m_buffer (m_data (mk_vector xs k)) = [] @ map Some xa @ map Some xb @ replicate k None"
      "m_buffer (m_data (mk_vector ys j)) = [] @ map Some ys @ replicate j None"
      by (simp_all add: mk_vector_def xs)
    have cp: "std_copy T ([] @ map Some ys @ replicate j None) 0 (length ys)
                ([] @ map Some xa @ map Some xb @ replicate k None) 0
              = Ok (map Some ys @ map Some xb @ replicate k None,
                    map (\<lambda>i. Copy_assign (Slot Rhs i) (Slot This i)) [0..<length ys])"
      using std_copy_blk [OF nt la, of "[]" "replicate j None" "[]" "map Some xb @ replicate k None"]
      by simp
    have des: "destroy_n This (map Some ys @ map Some xb @ replicate k None) (length ys)
                 (length xs - length ys)
               = Some (map Some ys @ replicate (length xb) None @ replicate k None,
                       map (\<lambda>i. Destroy (Slot This (length ys + i))) [0..<length xb])"
      using destroy_n_blk [of This "map Some ys" xb "replicate k None"] la
      by (simp add: xs)
    have fin: "(mk_vector xs k)\<lparr>m_data := (m_data (mk_vector xs k))
                 \<lparr>m_buffer := map Some ys @ replicate (length xb) None @ replicate k None\<rparr>,
               m_size := length ys\<rparr> = mk_vector ys (length xb + k)"
      using la by (simp add: mk_vector_def xs replicate_add)
    have "copy_assign T st a b =
            Returns (map (\<lambda>i. Copy_assign (Slot Rhs i) (Slot This i)) [0..<length ys]
                     @ map (\<lambda>i. Destroy (Slot This (length ys + i))) [0..<length xb])
              (st(a := mk_vector ys (length xb + k))) ()"
      using ne shrink
      by (simp add: copy_assign_def Let_def va vb buf cp des fin del: append.simps)
    then show ?thesis by blast
  next
    case fit
    define ya yb where "ya = take (length xs) ys" and "yb = drop (length xs) ys"
    with fit have ys: "ys = ya @ yb" and la: "length ya = length xs"
      and lb: "length yb = length ys - length xs"
      by simp_all
    from nt have nta: "\<forall>x \<in> set ya. \<not> copy_throws T x" and ntb: "\<forall>x \<in> set yb. \<not> copy_throws T x"
      by (simp_all add: ys)
    from fit lb have kk: "k = length yb + (k - length yb)" by simp
    have buf: "m_buffer (m_data (mk_vector xs k))
                 = [] @ map Some xs @ replicate (length yb) None @ replicate (k - length yb) None"
      "m_buffer (m_data (mk_vector ys j)) = [] @ map Some ya @ map Some yb @ replicate j None"
      using kk by (simp_all add: mk_vector_def ys replicate_add [symmetric])
    have cp: "std_copy T ([] @ map Some ya @ map Some yb @ replicate j None) 0 (length xs)
                ([] @ map Some xs @ replicate (length yb) None @ replicate (k - length yb) None) 0
              = Ok (map Some ya @ replicate (length yb) None @ replicate (k - length yb) None,
                    map (\<lambda>i. Copy_assign (Slot Rhs i) (Slot This i)) [0..<length xs])"
      using std_copy_blk [OF nta, of xs "[]" "map Some yb @ replicate j None" "[]"
          "replicate (length yb) None @ replicate (k - length yb) None"] la
      by simp
    have uc: "uninitialized_copy_n T Rhs ([] @ map Some ya @ map Some yb @ replicate j None)
                (length xs) (length ys - length xs) This
                (map Some ya @ replicate (length yb) None @ replicate (k - length yb) None) (length xs)
              = Ok (map Some ya @ map Some yb @ replicate (k - length yb) None,
                    map (\<lambda>i. Copy_construct (Slot Rhs (length xs + i)) (Slot This (length xs + i)))
                      [0..<length yb])"
      using uninitialized_copy_n_blk [OF ntb, of Rhs "map Some ya" "replicate j None" This
          "map Some ya" "replicate (k - length yb) None"] la lb
      by simp
    have fin: "(mk_vector xs k)\<lparr>m_data := (m_data (mk_vector xs k))
                 \<lparr>m_buffer := map Some ya @ map Some yb @ replicate (k - length yb) None\<rparr>,
               m_size := length ys\<rparr> = mk_vector ys (k - length yb)"
      using la lb fit by (simp add: mk_vector_def ys)
    have "copy_assign T st a b =
            Returns (map (\<lambda>i. Copy_assign (Slot Rhs i) (Slot This i)) [0..<length xs]
                     @ map (\<lambda>i. Copy_construct (Slot Rhs (length xs + i)) (Slot This (length xs + i)))
                         [0..<length yb])
              (st(a := mk_vector ys (k - length yb))) ()"
      using ne fit
      by (simp add: copy_assign_def Let_def va vb buf cp uc fin del: append.simps)
    then show ?thesis by blast
  qed
qed

lemma copy_assign_throws:
  assumes ne: "a \<noteq> b" and va: "st a = mk_vector xs k" and vb: "st b = mk_vector ys j"
    and th: "\<exists>x \<in> set ys. copy_throws T x"
  shows "\<exists>es st'. copy_assign T st a b = Throws es st'"
proof -
  consider (grow) "length xs + k < length ys" | (shrink) "length ys < length xs"
    | (fit) "length xs \<le> length ys" "length ys \<le> length xs + k"
    by linarith
  then show ?thesis
  proof cases
    case grow
    from Vector_copy_throws [OF th, of j] obtain es where "Vector_copy T (mk_vector ys j) = Throws es ()"
      by blast
    with ne grow show ?thesis
      by (simp add: copy_assign_def Let_def va vb)
  next
    case shrink
    define xa xb where "xa = take (length ys) xs" and "xb = drop (length ys) xs"
    with shrink have xs: "xs = xa @ xb" and la: "length xa = length ys"
      by simp_all
    have buf: "m_buffer (m_data (mk_vector xs k)) = [] @ map Some xa @ map Some xb @ replicate k None"
      "m_buffer (m_data (mk_vector ys j)) = [] @ map Some ys @ replicate j None"
      by (simp_all add: mk_vector_def xs)
    from std_copy_throw [OF th la, of "[]" "replicate j None" "[]" "map Some xb @ replicate k None"]
    obtain r where "std_copy T ([] @ map Some ys @ replicate j None) 0 (length ys)
                ([] @ map Some xa @ map Some xb @ replicate k None) 0 = Exn r"
      by auto
    with ne shrink show ?thesis
      by (cases r) (simp add: copy_assign_def Let_def va vb buf del: append.simps)
  next
    case fit
    define ya yb where "ya = take (length xs) ys" and "yb = drop (length xs) ys"
    with fit have ys: "ys = ya @ yb" and la: "length ya = length xs"
      and lb: "length yb = length ys - length xs"
      by simp_all
    from fit lb have kk: "k = length yb + (k - length yb)" by simp
    have buf: "m_buffer (m_data (mk_vector xs k))
                 = [] @ map Some xs @ replicate (length yb) None @ replicate (k - length yb) None"
      "m_buffer (m_data (mk_vector ys j)) = [] @ map Some ya @ map Some yb @ replicate j None"
      using kk by (simp_all add: mk_vector_def ys replicate_add [symmetric])
    show ?thesis
    proof (cases "\<exists>x \<in> set ya. copy_throws T x")
      case True
      from std_copy_throw [OF True, of xs "[]" "map Some yb @ replicate j None" "[]"
          "replicate (length yb) None @ replicate (k - length yb) None"] la
      obtain r where "std_copy T ([] @ map Some ya @ map Some yb @ replicate j None) 0 (length xs)
                ([] @ map Some xs @ replicate (length yb) None @ replicate (k - length yb) None) 0
              = Exn r"
        by auto
      with ne fit show ?thesis
        by (cases r) (simp add: copy_assign_def Let_def va vb buf del: append.simps)
    next
      case False
      then have nta: "\<forall>x \<in> set ya. \<not> copy_throws T x" by simp
      with th have thb: "\<exists>x \<in> set yb. copy_throws T x" by (auto simp: ys)
      have cp: "std_copy T ([] @ map Some ya @ map Some yb @ replicate j None) 0 (length xs)
                ([] @ map Some xs @ replicate (length yb) None @ replicate (k - length yb) None) 0
              = Ok (map Some ya @ replicate (length yb) None @ replicate (k - length yb) None,
                    map (\<lambda>i. Copy_assign (Slot Rhs i) (Slot This i)) [0..<length xs])"
        using std_copy_blk [OF nta, of xs "[]" "map Some yb @ replicate j None" "[]"
            "replicate (length yb) None @ replicate (k - length yb) None"] la
        by simp
      from uninitialized_copy_n_throw [OF thb, where rs = Rhs and pre = "map Some ya"
          and post = "replicate j None" and rd = This and dpre = "map Some ya"
          and dpost = "replicate (k - length yb) None"] la lb
      obtain es where "uninitialized_copy_n T Rhs ([] @ map Some ya @ map Some yb @ replicate j None)
                (length xs) (length ys - length xs) This
                (map Some ya @ replicate (length yb) None @ replicate (k - length yb) None) (length xs)
              = Exn (map Some ya @ replicate (length yb) None @ replicate (k - length yb) None, es)"
        by auto
      with ne fit cp show ?thesis
        by (simp add: copy_assign_def Let_def va vb buf del: append.simps)
    qed
  qed
qed

text \<open>
  C5. For two vectors that satisfy the class invariant, whenever the copy assignment
  \<open>a = b\<close> returns, \<open>a\<close> has the size and the elements of \<open>b\<close>; it returns when no copy
  of an element of \<open>b\<close> throws, and then every other vector, \<open>b\<close> among them, is as it
  was. It never has undefined behaviour, so no live object is constructed over and no
  raw slot is destroyed. The self-assignment \<open>c = c\<close> returns the same store with no
  event: nothing is constructed and nothing is destroyed.
\<close>

theorem copy_assign_postcondition:
  assumes "wf (st a)" and "wf (st b)"
  shows "copy_assign T st a b \<noteq> Undefined \<and>
         (\<forall>es st'. copy_assign T st a b = Returns es st' () \<longrightarrow>
            Size (st' a) = Size (st b) \<and> elems (st' a) = elems (st b) \<and> wf (st' a) \<and>
            (\<forall>c. c \<noteq> a \<longrightarrow> st' c = st c)) \<and>
         ((\<forall>x \<in> set (elems (st b)). \<not> copy_throws T x) \<longrightarrow>
            (\<exists>es st'. copy_assign T st a b = Returns es st' ())) \<and>
         copy_assign T st a a = Returns [] st ()"
proof -
  from assms obtain xs k ys j where va: "st a = mk_vector xs k" and vb: "st b = mk_vector ys j"
    by (metis wf_cases)
  have self: "copy_assign T st c c = Returns [] st ()" for c
    by (simp add: copy_assign_def)
  show ?thesis
  proof (cases "a = b")
    case True
    with self [of a] assms show ?thesis by simp
  next
    case False
    show ?thesis
    proof (cases "\<exists>x \<in> set ys. copy_throws T x")
      case True
      from True have "\<not> (\<forall>x \<in> set (elems (st b)). \<not> copy_throws T x)"
        by (simp add: vb elems_mk_vector)
      with copy_assign_throws [OF False va vb True] self [of a] show ?thesis by auto
    next
      case nt: False
      then have "\<forall>x \<in> set ys. \<not> copy_throws T x" by simp
      from copy_assign_ok [OF False va vb this]
      obtain es k' where "copy_assign T st a b = Returns es (st(a := mk_vector ys k')) ()"
        by blast
      with self [of a] show ?thesis
        by (auto simp: vb wf_mk_vector elems_mk_vector)
    qed
  qed
qed

theorem copy_assign_postcondition_witness:
  "wf (example_store 0) \<and> wf (example_store 1) \<and>
   copy_assign trivial_type example_store 1 0 =
     Returns [Copy_assign (Slot Rhs 0) (Slot This 0), Copy_construct (Slot Rhs 1) (Slot This 1)]
       (example_store(1 := mk_vector [1, 2] 0)) () \<and>
   Size ((example_store(1 := mk_vector [1, 2] 0)) 1) = Size (example_store 0) \<and>
   elems ((example_store(1 := mk_vector [1, 2] 0)) 1) = elems (example_store 0) \<and>
   copy_assign trivial_type example_store 0 0 = Returns [] example_store ()"
proof -
  have w: "wf (example_store 0)" "wf (example_store 1)"
    by (simp_all add: example_store_def wf_mk_vector)
  have r: "copy_assign trivial_type example_store 1 0 =
     Returns [Copy_assign (Slot Rhs 0) (Slot This 0), Copy_construct (Slot Rhs 1) (Slot This 1)]
       (example_store(1 := mk_vector [1, 2] 0)) ()"
    by (simp add: copy_assign_def example_store_def run_defs)
  from copy_assign_postcondition [where st = example_store and a = 1 and b = 0
      and T = trivial_type, OF w(2) w(1)] r
  have "Size ((example_store(1 := mk_vector [1, 2] 0)) 1) = Size (example_store 0) \<and>
        elems ((example_store(1 := mk_vector [1, 2] 0)) 1) = elems (example_store 0)"
    by blast
  moreover from copy_assign_postcondition [where st = example_store and a = 0 and b = 0
      and T = trivial_type, OF w(1) w(1)]
  have "copy_assign trivial_type example_store 0 0 = Returns [] example_store ()"
    by blast
  ultimately show ?thesis using w r by blast
qed

section \<open>The growth policy\<close>

lemma grown_max: "grown n = max 1 (2 * n)"
  by (simp add: grown_def)

lemma FillNewData_fields:
  assumes "FillNewData T v nd = Ok (v', nd', es) \<or> FillNewData T v nd = Exn (v', nd', es)"
  shows "m_size v' = m_size v \<and> m_capacity (m_data v') = m_capacity (m_data v) \<and>
         m_capacity nd' = m_capacity nd"
  using assms
  by (auto simp: FillNewData_def split: if_splits option.splits result.splits prod.splits)

lemma EmplaceBack_full_capacity:
  assumes "\<not> m_size v < m_capacity (m_data v)" and "EmplaceBack T ctor v args = Returns es v' r"
  shows "m_capacity (m_data v') = grown (m_size v)"
  using assms
  by (auto simp: EmplaceBack_def Let_def RawMemory_new_def
      split: if_splits option.splits result.splits prod.splits dest!: FillNewData_fields [OF disjI1])

lemma Emplace_full_capacity:
  assumes "\<not> m_size v < m_capacity (m_data v)" and "Emplace T ctor v pos args = Returns es v' r"
  shows "m_capacity (m_data v') = grown (m_size v)"
  using assms
  by (auto simp: Emplace_def Let_def RawMemory_new_def
      split: if_splits option.splits result.splits prod.splits)

lemma PushBack_mk_vector_Returns:
  assumes "PushBack T (mk_vector xs k) val = Returns es v' u"
  shows "v' = mk_vector (xs @ [value_of val])
                (if k = 0 then grown (length xs) - Suc (length xs) else k - 1)"
proof -
  from assms obtain r where "EmplaceBack T (forward_construct T) (mk_vector xs k) val = Returns es v' r"
    by (auto simp: PushBack_def split: outcome.splits)
  from EmplaceBack_mk_vector_Returns [OF this] show ?thesis
    by (auto dest: forward_construct_Some)
qed

lemma run_pushes_capacity:
  assumes "run T (mk_vector xs k) (map Push vals) = Ok w"
    and "(xs = [] \<and> k = 0) \<or> (\<exists>j. length xs + k = 2 ^ j \<and> 2 ^ j < 2 * length xs)"
  shows "Size w = length xs + length vals \<and>
         ((Size w = 0 \<and> Capacity w = 0) \<or>
          (\<exists>j. Capacity w = 2 ^ j \<and> Size w \<le> 2 ^ j \<and> 2 ^ j < 2 * Size w))"
  using assms
proof (induction vals arbitrary: xs k)
  case Nil
  then show ?case by auto
next
  case (Cons val vals)
  from Cons.prems(1) obtain es v' where p: "PushBack T (mk_vector xs k) val = Returns es v' ()"
    and r: "run T v' (map Push vals) = Ok w"
    by (auto split: outcome.splits)
  let ?k' = "if k = 0 then grown (length xs) - Suc (length xs) else k - 1"
  from PushBack_mk_vector_Returns [OF p] have v': "v' = mk_vector (xs @ [value_of val]) ?k'" .
  have inv: "(xs @ [value_of val] = [] \<and> ?k' = 0) \<or>
             (\<exists>j. length (xs @ [value_of val]) + ?k' = 2 ^ j \<and> 2 ^ j < 2 * length (xs @ [value_of val]))"
  proof (cases "k = 0")
    case True
    show ?thesis
    proof (cases "xs = []")
      case True
      with \<open>k = 0\<close> have "length (xs @ [value_of val]) + ?k' = 2 ^ 0" by (simp add: grown_def)
      moreover have "(2 :: nat) ^ 0 < 2 * length (xs @ [value_of val])" by simp
      ultimately show ?thesis by blast
    next
      case False
      with Cons.prems(2) True obtain j where j: "length xs = 2 ^ j" by auto
      from False True have "length (xs @ [value_of val]) + ?k' = 2 * length xs"
        by (cases xs) (simp_all add: grown_def)
      with j have "length (xs @ [value_of val]) + ?k' = 2 ^ Suc j" by simp
      moreover from j have "(2 :: nat) ^ Suc j < 2 * length (xs @ [value_of val])" by simp
      ultimately show ?thesis by blast
    qed
  next
    case False
    with Cons.prems(2) obtain j where j: "length xs + k = 2 ^ j" "2 ^ j < 2 * length xs" by auto
    from False j have "length (xs @ [value_of val]) + ?k' = 2 ^ j" by simp
    moreover from j have "(2 :: nat) ^ j < 2 * length (xs @ [value_of val])" by simp
    ultimately show ?thesis by blast
  qed
  from Cons.IH [OF r [unfolded v'] inv] show ?case by auto
qed

section \<open>The invariant of size and capacity\<close>










section \<open>Reserve\<close>

lemma RawMemory_new_split:
  "n \<le> c \<Longrightarrow> RawMemory_new c = \<lparr>m_buffer = replicate n None @ replicate (c - n) None, m_capacity = c\<rparr>"
  by (simp add: RawMemory_new_def replicate_add [symmetric])

text \<open>When the product of \<open>Allocate\<close> does not wrap, the block has the slots asked for.\<close>

lemma RawMemory_sized_fits:
  assumes "0 < size_of T" and "unat n * size_of T < 2 ^ 64"
  shows "RawMemory_sized T n = RawMemory_new (unat n)"
  using assms by (simp add: RawMemory_sized_def Allocate_slots_def RawMemory_new_def)

lemma Reserve_noop:
  "unat new_capacity \<le> m_capacity (m_data v) \<Longrightarrow> Reserve T v new_capacity = Returns [] v ()"
  by (simp add: Reserve_def)

lemma Reserve_ok:
  assumes fit: "0 < size_of T" "unat c * size_of T < 2 ^ 64"
    and gt: "length xs + k < unat c"
    and nt: "is_nothrow_move_constructible T \<or> \<not> is_copy_constructible T \<or>
           (\<forall>x \<in> set xs. \<not> copy_throws T x)"
  shows "Reserve T (mk_vector xs k) c =
     Returns ([Allocate (unat c)] @ transfer_events T (length xs)
              @ map (\<lambda>i. Destroy (Slot This i)) [0..<length xs] @ [Deallocate This])
       (mk_vector xs (unat c - length xs)) ()"
proof -
  let ?n = "length xs"
  let ?c = "unat c"
  let ?v' = "if is_nothrow_move_constructible T \<or> \<not> is_copy_constructible T
             then mk_vector (map (moved_from T) xs) k else mk_vector xs k"
  let ?nd' = "\<lparr>m_buffer = map Some xs @ replicate (?c - ?n) None, m_capacity = ?c\<rparr>"
  from gt have le: "?n \<le> ?c" by simp
  have nd: "(RawMemory_sized T c :: 'a RawMemory)
            = \<lparr>m_buffer = replicate ?n None @ replicate (?c - ?n) None, m_capacity = ?c\<rparr>"
    using RawMemory_sized_fits [OF fit] RawMemory_new_split [OF le] by simp
  have fill: "FillNewData T (mk_vector xs k)
                \<lparr>m_buffer = replicate ?n None @ replicate (?c - ?n) None, m_capacity = ?c\<rparr>
              = Ok (?v', ?nd', transfer_events T ?n)"
    by (rule FillNewData_ok [OF nt])
  have sz: "m_size ?v' = ?n" by simp
  have des: "destroy_n This (m_buffer (m_data ?v')) 0 ?n =
     Some (replicate ?n None @ replicate k None, map (\<lambda>i. Destroy (Slot This i)) [0..<?n])"
    by (simp add: destroy_all)
  have fin: "?v'\<lparr>m_data := ?nd'\<rparr> = mk_vector xs (?c - ?n)"
    using le by (simp add: mk_vector_def)
  have ne: "\<not> ?c \<le> ?n + k" using gt by simp
  have "Reserve T (mk_vector xs k) c =
     Returns ([Allocate ?c] @ transfer_events T ?n
              @ map (\<lambda>i. Destroy (Slot This i)) [0..<?n] @ [Deallocate This])
       (?v'\<lparr>m_data := ?nd'\<rparr>) ()"
    unfolding Reserve_def Let_def
    by (simp only: mk_vector_sel ne nd fill sz des result.case prod.case option.case if_False)
  then show ?thesis by (simp only: fin)
qed

lemma Reserve_throws:
  assumes fit: "0 < size_of T" "unat c * size_of T < 2 ^ 64"
    and gt: "length xs + k < unat c"
    and M: "\<not> (is_nothrow_move_constructible T \<or> \<not> is_copy_constructible T)"
    and th: "\<exists>x \<in> set xs. copy_throws T x"
  shows "\<exists>es. Reserve T (mk_vector xs k) c = Throws es (mk_vector xs k)"
proof -
  let ?n = "length xs"
  let ?c = "unat c"
  from gt have le: "?n \<le> ?c" by simp
  have nd: "(RawMemory_sized T c :: 'a RawMemory)
            = \<lparr>m_buffer = replicate ?n None @ replicate (?c - ?n) None, m_capacity = ?c\<rparr>"
    using RawMemory_sized_fits [OF fit] RawMemory_new_split [OF le] by simp
  from FillNewData_throws [OF M th, of k "replicate (?c - ?n) None" ?c]
  obtain es where fill: "FillNewData T (mk_vector xs k)
                \<lparr>m_buffer = replicate ?n None @ replicate (?c - ?n) None, m_capacity = ?c\<rparr>
              = Exn (mk_vector xs k,
                  \<lparr>m_buffer = replicate ?n None @ replicate (?c - ?n) None, m_capacity = ?c\<rparr>, es)"
    by blast
  have ne: "\<not> ?c \<le> ?n + k" using gt by simp
  have "Reserve T (mk_vector xs k) c =
          Throws ([Allocate ?c] @ es @ [Deallocate NewData]) (mk_vector xs k)"
    unfolding Reserve_def Let_def
    by (simp only: mk_vector_sel ne nd fill result.case prod.case if_False)
  then show ?thesis by blast
qed

text \<open>
  What \<open>Reserve\<close> does on a vector that satisfies the class invariant when the bytes of
  the new block fit \<open>size_t\<close>.
\<close>

lemma Reserve_within_size_t:
  assumes "wf v" and fit: "0 < size_of T" "unat n * size_of T < 2 ^ 64"
  shows "(unat n \<le> Capacity v \<longrightarrow> Reserve T v n = Returns [] v ()) \<and>
         (Capacity v < unat n \<longrightarrow>
            (is_nothrow_move_constructible T \<or> \<not> is_copy_constructible T \<or>
             (\<forall>x \<in> set (elems v). \<not> copy_throws T x) \<longrightarrow>
               (\<exists>v'. Reserve T v n =
                  Returns ([Allocate (unat n)] @ transfer_events T (Size v)
                    @ map (\<lambda>i. Destroy (Slot This i)) [0..<Size v] @ [Deallocate This]) v' () \<and>
                  wf v' \<and> Capacity v' = unat n \<and> Size v' = Size v \<and> elems v' = elems v)) \<and>
            (\<not> is_nothrow_move_constructible T \<and> is_copy_constructible T \<and>
             (\<exists>x \<in> set (elems v). copy_throws T x) \<longrightarrow>
               (\<exists>es. Reserve T v n = Throws es v)))"
proof -
  from assms(1) obtain xs k where v: "v = mk_vector xs k" by (rule wf_cases)
  have noop: "unat n \<le> Capacity v \<longrightarrow> Reserve T v n = Returns [] v ()"
    by (simp add: Reserve_noop Capacity_def)
  have ok: "\<exists>v'. Reserve T v n =
                  Returns ([Allocate (unat n)] @ transfer_events T (Size v)
                    @ map (\<lambda>i. Destroy (Slot This i)) [0..<Size v] @ [Deallocate This]) v' () \<and>
                  wf v' \<and> Capacity v' = unat n \<and> Size v' = Size v \<and> elems v' = elems v"
    if "Capacity v < unat n"
      and "is_nothrow_move_constructible T \<or> \<not> is_copy_constructible T \<or>
             (\<forall>x \<in> set (elems v). \<not> copy_throws T x)"
  proof -
    from that have gt: "length xs + k < unat n" by (simp add: v)
    from that have nt: "is_nothrow_move_constructible T \<or> \<not> is_copy_constructible T \<or>
           (\<forall>x \<in> set xs. \<not> copy_throws T x)" by (simp add: v elems_mk_vector)
    from Reserve_ok [OF fit gt nt] gt show ?thesis
      by (simp add: v wf_mk_vector elems_mk_vector)
  qed
  have th: "\<exists>es. Reserve T v n = Throws es v"
    if "Capacity v < unat n" and M: "\<not> is_nothrow_move_constructible T \<and> is_copy_constructible T"
      and bad: "\<exists>x \<in> set (elems v). copy_throws T x"
  proof -
    from that have gt: "length xs + k < unat n" by (simp add: v)
    from M have M': "\<not> (is_nothrow_move_constructible T \<or> \<not> is_copy_constructible T)" by simp
    from bad have "\<exists>x \<in> set xs. copy_throws T x" by (simp add: v elems_mk_vector)
    from Reserve_throws [OF fit gt M' this] show ?thesis by (simp add: v)
  qed
  from noop ok th show ?thesis by blast
qed

lemma Reserve_within_size_t_example:
  "\<exists>v'. Reserve fragile_type (mk_vector [4, 5 :: nat] 1) 7 =
      Returns ([Allocate 7] @ transfer_events fragile_type 2
               @ map (\<lambda>i. Destroy (Slot This i)) [0..<2] @ [Deallocate This]) v' () \<and>
      Capacity v' = 7 \<and> Size v' = 2 \<and> elems v' = [4, 5]"
proof -
  have h: "wf (mk_vector [4, 5 :: nat] 1)" by (rule wf_mk_vector)
  have t: "0 < size_of fragile_type" "unat (7 :: 64 word) * size_of fragile_type < 2 ^ 64"
    by (simp_all add: fragile_type_def)
  have c: "Capacity (mk_vector [4, 5 :: nat] 1) < unat (7 :: 64 word)" by simp
  have n: "is_nothrow_move_constructible fragile_type \<or> \<not> is_copy_constructible fragile_type \<or>
             (\<forall>x \<in> set (elems (mk_vector [4, 5 :: nat] 1)). \<not> copy_throws fragile_type x)"
    by (simp add: elems_mk_vector fragile_type_def)
  from Reserve_within_size_t [OF h t] c n
  have "\<exists>v'. Reserve fragile_type (mk_vector [4, 5 :: nat] 1) 7 =
                  Returns ([Allocate (unat (7 :: 64 word))]
                    @ transfer_events fragile_type (Size (mk_vector [4, 5 :: nat] 1))
                    @ map (\<lambda>i. Destroy (Slot This i)) [0..<Size (mk_vector [4, 5 :: nat] 1)]
                    @ [Deallocate This]) v' () \<and>
                  wf v' \<and> Capacity v' = unat (7 :: 64 word) \<and>
                  Size v' = Size (mk_vector [4, 5 :: nat] 1) \<and>
                  elems v' = elems (mk_vector [4, 5 :: nat] 1)"
    by blast
  then obtain v' where "Reserve fragile_type (mk_vector [4, 5 :: nat] 1) 7 =
                  Returns ([Allocate (unat (7 :: 64 word))]
                    @ transfer_events fragile_type (Size (mk_vector [4, 5 :: nat] 1))
                    @ map (\<lambda>i. Destroy (Slot This i)) [0..<Size (mk_vector [4, 5 :: nat] 1)]
                    @ [Deallocate This]) v' ()"
    and "Capacity v' = unat (7 :: 64 word)" and "Size v' = Size (mk_vector [4, 5 :: nat] 1)"
    and "elems v' = elems (mk_vector [4, 5 :: nat] 1)"
    by blast
  moreover have "Size (mk_vector [4, 5 :: nat] 1) = 2" "unat (7 :: 64 word) = 7"
    "elems (mk_vector [4, 5 :: nat] 1) = [4, 5]"
    by (simp_all add: elems_mk_vector)
  ultimately show ?thesis by (intro exI [of _ v']) (simp only: simp_thms)
qed

text \<open>
  C9. \<open>Reserve\<close> hands the count it is given to \<open>Allocate\<close>, which multiplies it by
  \<open>sizeof(T)\<close> in \<open>size_t\<close> and does not look for a wrap. On the vector \<open>[1]\<close> of an
  element type of 4 bytes, \<open>Reserve(2^62)\<close> asks \<open>operator new\<close> for \<open>2^64 mod 2^64 = 0\<close>
  bytes, obtains a block with no slot and moves the element into it: the call has
  undefined behaviour instead of keeping the element and setting the capacity. For
  the counts whose bytes fit \<open>size_t\<close> the call sets the capacity to the count and keeps
  the size and the elements (\<open>Reserve_within_size_t\<close>).
\<close>

theorem Reserve_allocation_wraps:
  "Capacity (mk_vector [1 :: nat] 0) < unat (2 ^ 62 :: 64 word) \<and>
   (unat (2 ^ 62 :: 64 word) * size_of (trivial_type :: nat elem_type)) mod 2 ^ 64 = 0 \<and>
   Allocate_slots (trivial_type :: nat elem_type) (2 ^ 62) = [] \<and>
   Reserve trivial_type (mk_vector [1 :: nat] 0) (2 ^ 62) = Undefined"
proof -
  have u: "unat (2 ^ 62 :: 64 word) = 2 ^ 62" by simp
  have a: "Allocate_slots (trivial_type :: nat elem_type) (2 ^ 62) = []"
    by (simp add: Allocate_slots_def trivial_type_def)
  have r: "RawMemory_sized (trivial_type :: nat elem_type) (2 ^ 62)
             = \<lparr>m_buffer = [], m_capacity = unat (2 ^ 62 :: 64 word)\<rparr>"
    by (simp only: RawMemory_sized_def a)
  have f: "FillNewData trivial_type (mk_vector [1 :: nat] 0)
             \<lparr>m_buffer = [], m_capacity = unat (2 ^ 62 :: 64 word)\<rparr> = UB"
    by (simp add: FillNewData_def trivial_type_def mk_vector_def read_def construct_at_def)
  have "Reserve trivial_type (mk_vector [1 :: nat] 0) (2 ^ 62) = Undefined"
    unfolding Reserve_def Let_def r f by simp
  with a show ?thesis by (simp add: trivial_type_def)
qed

section \<open>Growth at full capacity\<close>

lemma Emplace_full_returns:
  assumes "wf v" and full: "Size v = Capacity v" and pos: "pos \<le> Size v" "pos < 2 ^ 31"
    and x: "ctor args = Some x"
    and nt: "is_nothrow_move_constructible T \<or> \<not> is_copy_constructible T \<or>
           (\<forall>y \<in> set (elems v). \<not> copy_throws T y)"
  shows "\<exists>es v'. Emplace T ctor v pos args = Returns es v' pos \<and> wf v' \<and>
           Capacity v' = max 1 (2 * Capacity v) \<and>
           elems v' = take pos (elems v) @ x # drop pos (elems v)"
proof -
  from assms(1) obtain xs k where v: "v = mk_vector xs k" by (rule wf_cases)
  from full have k: "k = 0" by (simp add: v)
  define a b where "a = take pos xs" and "b = drop pos xs"
  with pos(1) have xs: "xs = a @ b" and la: "length a = pos"
    by (simp_all add: v)
  from pos(2) la have p: "length a < 2 ^ 31" by simp
  from nt have nt': "is_nothrow_move_constructible T \<or> \<not> is_copy_constructible T \<or>
           (\<forall>y \<in> set (a @ b). \<not> copy_throws T y)"
    by (simp add: v elems_mk_vector xs)
  have g: "length (a @ b) < grown (length (a @ b))" by (rule grown_gt)
  from Emplace_full_ok [where ctor = ctor and args = args, OF x p nt'] g
  show ?thesis
    by (simp add: v k xs la wf_mk_vector elems_mk_vector grown_max)
qed

lemma EmplaceBack_full_returns:
  assumes "wf v" and full: "Size v = Capacity v" and x: "ctor args = Some x"
    and nt: "is_nothrow_move_constructible T \<or> \<not> is_copy_constructible T \<or>
           (\<forall>y \<in> set (elems v). \<not> copy_throws T y)"
  shows "\<exists>es v'. EmplaceBack T ctor v args = Returns es v' (Size v) \<and> wf v' \<and>
           Capacity v' = max 1 (2 * Capacity v) \<and> elems v' = elems v @ [x]"
proof -
  from assms(1) obtain xs k where v: "v = mk_vector xs k" by (rule wf_cases)
  from full have k: "k = 0" by (simp add: v)
  from nt have nt': "is_nothrow_move_constructible T \<or> \<not> is_copy_constructible T \<or>
           (\<forall>y \<in> set xs. \<not> copy_throws T y)"
    by (simp add: v elems_mk_vector)
  have g: "length xs < grown (length xs)" by (rule grown_gt)
  from EmplaceBack_full_ok [where ctor = ctor and args = args, OF x nt'] g
  show ?thesis
    by (simp add: v k wf_mk_vector elems_mk_vector grown_max)
qed

text \<open>
  C3. On a vector that satisfies the class invariant with \<open>Size() = Capacity()\<close>, an
  \<open>EmplaceBack\<close>, and an \<open>Emplace\<close> at a position of the vector that fits the
  \<open>int offset\<close>, whose constructor does not throw and whose transfer of the old
  elements does not throw, returns, and the capacity is then \<open>max(1, 2 * Capacity())\<close>
  with the new element in its place; whenever either returns at \<open>Size() = Capacity()\<close>
  the capacity is that. A run of \<open>k\<close> \<open>PushBack\<close> calls on the default vector reaches
  its end when no pushed value has a throwing copy, and then leaves \<open>k\<close> elements and,
  for \<open>k > 0\<close>, as capacity the power of two \<open>c\<close> with \<open>k \<le> c < 2 * k\<close>: 1, 2, 4, 4, 8, ...
\<close>

theorem growth_doubles:
  fixes v :: "'a Vector"
  shows
  "(wf v \<and> Size v = Capacity v \<and> ctor args = Some x \<and>
    (is_nothrow_move_constructible T \<or> \<not> is_copy_constructible T \<or>
     (\<forall>y \<in> set (elems v). \<not> copy_throws T y)) \<longrightarrow>
      (\<exists>es v'. EmplaceBack T ctor v args = Returns es v' (Size v) \<and>
         Capacity v' = max 1 (2 * Capacity v) \<and> elems v' = elems v @ [x]) \<and>
      (pos \<le> Size v \<and> pos < 2 ^ 31 \<longrightarrow>
         (\<exists>es v'. Emplace T ctor v pos args = Returns es v' pos \<and>
            Capacity v' = max 1 (2 * Capacity v) \<and>
            elems v' = take pos (elems v) @ x # drop pos (elems v)))) \<and>
   (Size v = Capacity v \<longrightarrow>
      (\<forall>es v' r. EmplaceBack T ctor v args = Returns es v' r \<longrightarrow>
         Capacity v' = max 1 (2 * Capacity v)) \<and>
      (\<forall>es v' r. Emplace T ctor v pos args = Returns es v' r \<longrightarrow>
         Capacity v' = max 1 (2 * Capacity v))) \<and>
   ((\<forall>val. Push val \<in> set (map Push vals) \<longrightarrow> \<not> copy_throws T (value_of val)) \<longrightarrow>
      (\<exists>w. run T Vector_default (map Push vals) = Ok w)) \<and>
   (\<forall>w. run T Vector_default (map Push vals) = Ok w \<longrightarrow>
      Size w = length vals \<and>
      (vals \<noteq> [] \<longrightarrow>
         (\<exists>j. Capacity w = 2 ^ j \<and> length vals \<le> 2 ^ j \<and> 2 ^ j < 2 * length vals)))"
proof -
  have ret: "(\<exists>es v'. EmplaceBack T ctor v args = Returns es v' (Size v) \<and>
         Capacity v' = max 1 (2 * Capacity v) \<and> elems v' = elems v @ [x]) \<and>
      (pos \<le> Size v \<and> pos < 2 ^ 31 \<longrightarrow>
         (\<exists>es v'. Emplace T ctor v pos args = Returns es v' pos \<and>
            Capacity v' = max 1 (2 * Capacity v) \<and>
            elems v' = take pos (elems v) @ x # drop pos (elems v)))"
    if h: "wf v \<and> Size v = Capacity v \<and> ctor args = Some x \<and>
    (is_nothrow_move_constructible T \<or> \<not> is_copy_constructible T \<or>
     (\<forall>y \<in> set (elems v). \<not> copy_throws T y))"
  proof -
    from h have w: "wf v" and f: "Size v = Capacity v" and x: "ctor args = Some x"
      and nt: "is_nothrow_move_constructible T \<or> \<not> is_copy_constructible T \<or>
     (\<forall>y \<in> set (elems v). \<not> copy_throws T y)"
      by blast+
    from EmplaceBack_full_returns [where ctor = ctor and args = args, OF w f x nt]
    have 1: "\<exists>es v'. EmplaceBack T ctor v args = Returns es v' (Size v) \<and>
         Capacity v' = max 1 (2 * Capacity v) \<and> elems v' = elems v @ [x]"
      by blast
    have 2: "\<exists>es v'. Emplace T ctor v pos args = Returns es v' pos \<and>
            Capacity v' = max 1 (2 * Capacity v) \<and>
            elems v' = take pos (elems v) @ x # drop pos (elems v)"
      if "pos \<le> Size v \<and> pos < 2 ^ 31"
      using Emplace_full_returns [where ctor = ctor and args = args and pos = pos, OF w f _ _ x nt]
        that
      by blast
    from 1 2 show ?thesis by blast
  qed
  have cond: "(\<forall>es v' r. EmplaceBack T ctor v args = Returns es v' r \<longrightarrow>
         Capacity v' = max 1 (2 * Capacity v)) \<and>
      (\<forall>es v' r. Emplace T ctor v pos args = Returns es v' r \<longrightarrow>
         Capacity v' = max 1 (2 * Capacity v))"
    if "Size v = Capacity v"
  proof (intro conjI allI impI)
    fix es v' r assume "EmplaceBack T ctor v args = Returns es v' r"
    with that show "Capacity v' = max 1 (2 * Capacity v)"
      using EmplaceBack_full_capacity [of v T ctor args es v' r]
      by (simp add: Size_def Capacity_def grown_max)
  next
    fix es v' r assume "Emplace T ctor v pos args = Returns es v' r"
    with that show "Capacity v' = max 1 (2 * Capacity v)"
      using Emplace_full_capacity [of v T ctor pos args es v' r]
      by (simp add: Size_def Capacity_def grown_max)
  qed
  have total: "\<exists>w. run T Vector_default (map Push vals) = Ok w"
    if "\<forall>val. Push val \<in> set (map Push vals) \<longrightarrow> \<not> copy_throws T (value_of val)"
    using run_total [of "[]" T "map Push vals" 0] that
    by (simp add: Vector_default_mk_vector)
  have pushes: "Size w = length vals \<and>
      (vals \<noteq> [] \<longrightarrow>
         (\<exists>j. Capacity w = 2 ^ j \<and> length vals \<le> 2 ^ j \<and> 2 ^ j < 2 * length vals))"
    if r: "run T Vector_default (map Push vals) = Ok w" for w
  proof -
    from r have r': "run T (mk_vector [] 0) (map Push vals) = Ok w"
      by (simp add: Vector_default_mk_vector)
    have i: "(([] :: 'a list) = [] \<and> (0 :: nat) = 0) \<or>
             (\<exists>j. length ([] :: 'a list) + 0 = 2 ^ j \<and> 2 ^ j < 2 * length ([] :: 'a list))"
      by simp
    note both = run_pushes_capacity [OF r' i]
    from both have sz: "Size w = length vals" by simp
    from both have *: "(Size w = 0 \<and> Capacity w = 0) \<or>
            (\<exists>j. Capacity w = 2 ^ j \<and> Size w \<le> 2 ^ j \<and> 2 ^ j < 2 * Size w)"
      by (rule conjunct2)
    have "\<exists>j. Capacity w = 2 ^ j \<and> length vals \<le> 2 ^ j \<and> 2 ^ j < 2 * length vals"
      if "vals \<noteq> []"
    proof -
      from sz that have "Size w \<noteq> 0" by simp
      with * obtain j where "Capacity w = 2 ^ j" "Size w \<le> 2 ^ j" "2 ^ j < 2 * Size w"
        by blast
      with sz show ?thesis by auto
    qed
    with sz show ?thesis by blast
  qed
  from ret cond total pushes show ?thesis by blast
qed

theorem growth_doubles_witness:
  "wf (mk_vector [7, 8 :: nat] 0) \<and>
   Size (mk_vector [7, 8 :: nat] 0) = Capacity (mk_vector [7, 8 :: nat] 0) \<and>
   (\<exists>es v'. EmplaceBack trivial_type Some (mk_vector [7, 8 :: nat] 0) 9 = Returns es v' 2 \<and>
      Capacity v' = 4 \<and> elems v' = [7, 8, 9]) \<and>
   (\<exists>es v'. Emplace trivial_type Some (mk_vector [7, 8 :: nat] 0) 1 9 = Returns es v' 1 \<and>
      Capacity v' = 4 \<and> elems v' = [7, 9, 8]) \<and>
   (\<exists>w. run trivial_type Vector_default (map Push [Rvalue (7 :: nat), Lvalue 8, Rvalue 9]) = Ok w \<and>
      Size w = 3 \<and> (\<exists>j. Capacity w = 2 ^ j \<and> (3 :: nat) \<le> 2 ^ j \<and> (2 :: nat) ^ j < 2 * 3)) \<and>
   run trivial_type Vector_default (map Push [Rvalue (7 :: nat)]) = Ok (mk_vector [7] 0) \<and>
   Capacity (mk_vector [7 :: nat] 0) = 1 \<and>
   run trivial_type Vector_default (map Push [Rvalue (7 :: nat), Lvalue 8]) = Ok (mk_vector [7, 8] 0) \<and>
   Capacity (mk_vector [7, 8 :: nat] 0) = 2 \<and>
   run trivial_type Vector_default (map Push [Rvalue (7 :: nat), Lvalue 8, Rvalue 9])
     = Ok (mk_vector [7, 8, 9] 1) \<and>
   Capacity (mk_vector [7, 8, 9 :: nat] 1) = 4"
proof -
  let ?v = "mk_vector [7, 8 :: nat] 0"
  let ?vals = "[Rvalue (7 :: nat), Lvalue 8, Rvalue 9]"
  have w: "wf ?v" by (rule wf_mk_vector)
  have f: "Size ?v = Capacity ?v" by simp
  have nt: "is_nothrow_move_constructible (trivial_type :: nat elem_type) \<or>
            \<not> is_copy_constructible (trivial_type :: nat elem_type) \<or>
            (\<forall>y \<in> set (elems ?v). \<not> copy_throws trivial_type y)"
    by (simp add: trivial_type_def)
  have p: "(1 :: nat) \<le> Size ?v \<and> (1 :: nat) < 2 ^ 31" by simp
  have c: "\<forall>val. Push val \<in> set (map Push ?vals) \<longrightarrow> \<not> copy_throws trivial_type (value_of val)"
    by (simp add: trivial_type_def)
  have m: "max 1 (2 * Capacity ?v) = 4" "take 1 (elems ?v) @ 9 # drop 1 (elems ?v) = [7, 9, 8]"
    "elems ?v @ [9] = [7, 8, 9]" "Size ?v = 2" "length ?vals = 3"
    by (simp_all add: elems_mk_vector)
  note g = growth_doubles [where v = ?v and T = trivial_type and ctor = Some and args = 9
      and x = 9 and pos = 1 and vals = ?vals]
  from g w f nt
  have e1: "\<exists>es v'. EmplaceBack trivial_type Some ?v 9 = Returns es v' (Size ?v) \<and>
         Capacity v' = max 1 (2 * Capacity ?v) \<and> elems v' = elems ?v @ [9]"
    by blast
  from g w f nt p
  have e2: "\<exists>es v'. Emplace trivial_type Some ?v 1 9 = Returns es v' 1 \<and>
            Capacity v' = max 1 (2 * Capacity ?v) \<and>
            elems v' = take 1 (elems ?v) @ 9 # drop 1 (elems ?v)"
    by blast
  from g c obtain w' where r: "run trivial_type Vector_default (map Push ?vals) = Ok w'"
    by blast
  from g r have "Size w' = length ?vals \<and>
      (\<exists>j. Capacity w' = 2 ^ j \<and> length ?vals \<le> 2 ^ j \<and> 2 ^ j < 2 * length ?vals)"
    by blast
  with r have e3: "\<exists>w. run trivial_type Vector_default (map Push ?vals) = Ok w \<and>
      Size w = 3 \<and> (\<exists>j. Capacity w = 2 ^ j \<and> (3 :: nat) \<le> 2 ^ j \<and> (2 :: nat) ^ j < 2 * 3)"
    unfolding m by blast
  have r1: "run trivial_type Vector_default (map Push [Rvalue (7 :: nat)]) = Ok (mk_vector [7] 0)"
    by (simp add: run_defs)
  have r2: "run trivial_type Vector_default (map Push [Rvalue (7 :: nat), Lvalue 8])
              = Ok (mk_vector [7, 8] 0)"
    by (simp add: run_defs)
  have r3: "run trivial_type Vector_default (map Push ?vals) = Ok (mk_vector [7, 8, 9] 1)"
    by (simp add: run_defs)
  have c3: "Capacity (mk_vector [7 :: nat] 0) = 1" "Capacity (mk_vector [7, 8 :: nat] 0) = 2"
    "Capacity (mk_vector [7, 8, 9 :: nat] 1) = 4"
    by simp_all
  from e1 e2 have e1': "\<exists>es v'. EmplaceBack trivial_type Some ?v 9 = Returns es v' 2 \<and>
      Capacity v' = 4 \<and> elems v' = [7, 8, 9]"
    and e2': "\<exists>es v'. Emplace trivial_type Some ?v 1 9 = Returns es v' 1 \<and>
      Capacity v' = 4 \<and> elems v' = [7, 9, 8]"
    unfolding m by blast+
  from w f e1' e2' e3 r1 r2 r3 c3 show ?thesis by blast
qed

section \<open>The invariant of size and capacity: the size_t counts\<close>














section \<open>The invariant of size and capacity: every operation\<close>












end
